theory Spec2Isabelle
  imports Main "HOL-Library.Char_ord" "HOL-Library.List_Lexorder" "HOL-Library.AList"
begin

section \<open>Python strings and integers\<close>

text \<open>
  A Python \<open>str\<close> is modelled as a \<open>string\<close> whose characters are the code points
  0..255.  Files are opened in text mode, so the content seen by the program has every
  line terminator already translated to the single character \<open>\<newline>\<close>.

  \<open>isspace\<close> is the white space of \<open>str.strip()\<close>, \<open>str.split()\<close> and \<open>int()\<close>
  in that range: TAB, LF, VT, FF, CR, the separators 0x1C..0x1F, SPACE, NEL and NBSP.
\<close>

definition isspace :: "char \<Rightarrow> bool" where
  "isspace c = (let k = (of_char c :: nat)
                in (9 \<le> k \<and> k \<le> 13) \<or> (28 \<le> k \<and> k \<le> 32) \<or> k = 133 \<or> k = 160)"

definition isdigit :: "char \<Rightarrow> bool" where
  "isdigit c = (let k = (of_char c :: nat) in 48 \<le> k \<and> k \<le> 57)"

definition digit_val :: "char \<Rightarrow> nat" where
  "digit_val c = of_char c - 48"

text \<open>\<open>s.strip()\<close>, \<open>s.rstrip('\n')\<close>.\<close>

definition strip :: "string \<Rightarrow> string" where
  "strip s = rev (dropWhile isspace (rev (dropWhile isspace s)))"

definition rstrip_nl :: "string \<Rightarrow> string" where
  "rstrip_nl s = rev (dropWhile (\<lambda>c. c = CHR 0x0A) (rev s))"

text \<open>\<open>s.split()\<close>: the maximal runs of characters that are not white space.\<close>

fun split_ws_acc :: "string \<Rightarrow> string \<Rightarrow> string list" where
  "split_ws_acc cur [] = (if cur = [] then [] else [cur])"
| "split_ws_acc cur (c # cs) =
     (if isspace c then (if cur = [] then split_ws_acc [] cs else cur # split_ws_acc [] cs)
      else split_ws_acc (cur @ [c]) cs)"

definition split_ws :: "string \<Rightarrow> string list" where
  "split_ws s = split_ws_acc [] s"

text \<open>\<open>s.split(sep)\<close> for a one-character separator: always at least one part.\<close>

fun split_on_acc :: "char \<Rightarrow> string \<Rightarrow> string \<Rightarrow> string list" where
  "split_on_acc sep cur [] = [cur]"
| "split_on_acc sep cur (c # cs) =
     (if c = sep then cur # split_on_acc sep [] cs else split_on_acc sep (cur @ [c]) cs)"

definition split_on :: "char \<Rightarrow> string \<Rightarrow> string list" where
  "split_on sep s = split_on_acc sep [] s"

text \<open>\<open>sep.join(xs)\<close>.\<close>

fun join :: "string \<Rightarrow> string list \<Rightarrow> string" where
  "join sep [] = []"
| "join sep [x] = x"
| "join sep (x # y # ys) = x @ sep @ join sep (y # ys)"

text \<open>
  \<open>int(s)\<close> in base ten: optional surrounding white space, an optional sign, then digits,
  where single underscores may stand between digits.  \<open>None\<close> is the \<open>ValueError\<close>.
  (The interpreter's configurable limit on the number of digits is not modelled.)
\<close>

fun int_digits :: "nat \<Rightarrow> string \<Rightarrow> nat option" where
  "int_digits acc [] = Some acc"
| "int_digits acc [c] = (if isdigit c then Some (10 * acc + digit_val c) else None)"
| "int_digits acc (c # d # cs) =
     (if isdigit c then int_digits (10 * acc + digit_val c) (d # cs)
      else if c = CHR ''_'' \<and> isdigit d then int_digits acc (d # cs)
      else None)"

definition int_unsigned :: "string \<Rightarrow> nat option" where
  "int_unsigned s = (case s of [] \<Rightarrow> None
                     | c # cs \<Rightarrow> if isdigit c then int_digits 0 s else None)"

definition py_int :: "string \<Rightarrow> int option" where
  "py_int s = (case strip s of [] \<Rightarrow> None
               | c # cs \<Rightarrow>
                   if c = CHR ''-'' then map_option (\<lambda>k. - int k) (int_unsigned cs)
                   else if c = CHR ''+'' then map_option int (int_unsigned cs)
                   else map_option int (int_unsigned (c # cs)))"

text \<open>\<open>str(n)\<close> of an integer, as \<open>f"{n}"\<close> and \<open>'%s' % n\<close> print it.\<close>

function str_nat :: "nat \<Rightarrow> string" where
  "str_nat n = (if n < 10 then [char_of (48 + n)] else str_nat (n div 10) @ [char_of (48 + n mod 10)])"
  by pat_completeness auto
termination
  by (relation "measure id") auto

definition str_int :: "int \<Rightarrow> string" where
  "str_int n = (if n < 0 then CHR ''-'' # str_nat (nat (- n)) else str_nat (nat n))"

text \<open>\<open>xs[i]\<close> with Python's negative indices; \<open>None\<close> is the \<open>IndexError\<close>.\<close>

definition py_index :: "'a list \<Rightarrow> int \<Rightarrow> 'a option" where
  "py_index xs i =
     (if 0 \<le> i \<and> i < int (length xs) then Some (xs ! nat i)
      else if i < 0 \<and> - int (length xs) \<le> i then Some (xs ! nat (int (length xs) + i))
      else None)"

text \<open>All of a list of optional values, or \<open>None\<close> when one of them is missing.\<close>

fun all_some :: "'a option list \<Rightarrow> 'a list option" where
  "all_some [] = Some []"
| "all_some (None # xs) = None"
| "all_some (Some x # xs) = map_option ((#) x) (all_some xs)"

section \<open>The text stream of a file\<close>

text \<open>
  \<open>readlines\<close> cuts the content of a file into the lines that successive calls of
  \<open>readline()\<close> return: every line keeps its terminator, and only the last line of a
  file may lack one.
\<close>

fun readlines_acc :: "string \<Rightarrow> string \<Rightarrow> string list" where
  "readlines_acc cur [] = (if cur = [] then [] else [cur])"
| "readlines_acc cur (c # cs) =
     (if c = CHR 0x0A then (cur @ [c]) # readlines_acc [] cs
      else readlines_acc (cur @ [c]) cs)"

definition readlines :: "string \<Rightarrow> string list" where
  "readlines s = readlines_acc [] s"

section \<open>Paths, exceptions and log records\<close>

text \<open>
  A path is its parent directory and its final component (\<open>Path.parent\<close>,
  \<open>Path.name\<close>).  The exceptions are those that can reach the handler around the
  body of \<open>process_file\<close>.  A log record keeps the arguments of the logging call;
  \<open>logger.exception\<close> logs at level \<open>ERROR\<close>.
\<close>

type_synonym path = "string \<times> string"

datatype exn = OSError | ValueError | IndexError

datatype level = INFO | WARNING | ERROR

datatype event =
    Processing_file path
  | Expected_integer string path
  | EOF_reading_metadata path
  | Metadata_too_short nat int path
  | Failed_to_extract
  | EOF_reading_atoms int path nat
  | Finished_file path nat path
  | Fatal_error path exn

fun level_of :: "event \<Rightarrow> level" where
  "level_of (Processing_file _) = INFO"
| "level_of (Expected_integer _ _) = WARNING"
| "level_of (EOF_reading_metadata _) = WARNING"
| "level_of (Metadata_too_short _ _ _) = WARNING"
| "level_of Failed_to_extract = ERROR"
| "level_of (EOF_reading_atoms _ _ _) = WARNING"
| "level_of (Finished_file _ _ _) = INFO"
| "level_of (Fatal_error _ _) = ERROR"

section \<open>The state of the two open files\<close>

text \<open>
  \<open>fin\<close> holds the lines of the input not read yet, \<open>fout\<close> the text written so far.
  \<open>io_budget\<close> is the environment: \<open>Some k\<close> lets \<open>k\<close> more stream operations succeed
  and makes the next one raise \<open>OSError\<close>; \<open>None\<close> is a run without I/O failure.
\<close>

record state =
  fin :: "string list"
  fout :: string
  logged :: "event list"
  block_count :: nat
  io_budget :: "nat option"

definition io_step :: "state \<Rightarrow> (exn \<times> state) + state" where
  "io_step s = (case io_budget s of
                  None \<Rightarrow> Inr s
                | Some 0 \<Rightarrow> Inl (OSError, s)
                | Some (Suc k) \<Rightarrow> Inr (s\<lparr>io_budget := Some k\<rparr>))"

text \<open>\<open>fin.readline()\<close>: the empty string at the end of the stream.\<close>

definition readline :: "state \<Rightarrow> (exn \<times> state) + (string \<times> state)" where
  "readline s = (case io_step s of
                   Inl e \<Rightarrow> Inl e
                 | Inr s' \<Rightarrow> (case fin s' of
                                [] \<Rightarrow> Inr ([], s')
                              | l # ls \<Rightarrow> Inr (l, s'\<lparr>fin := ls\<rparr>)))"

text \<open>\<open>fout.write(x)\<close>.\<close>

definition write_out :: "string \<Rightarrow> state \<Rightarrow> (exn \<times> state) + state" where
  "write_out x s = (case io_step s of
                  Inl e \<Rightarrow> Inl e
                | Inr s' \<Rightarrow> Inr (s'\<lparr>fout := fout s' @ x\<rparr>))"

definition logger :: "event \<Rightarrow> state \<Rightarrow> state" where
  "logger e s = s\<lparr>logged := logged s @ [e]\<rparr>"

section \<open>The reformatter\<close>

definition METADATA_INDICES :: "int list" where
  "METADATA_INDICES = [16, 18, 20, 22, 24, 26, 28, 30, 32, 34]"

text \<open>\<open>max(xs)\<close>; \<open>None\<close> is the \<open>ValueError\<close> on an empty list.\<close>

fun py_max :: "int list \<Rightarrow> int option" where
  "py_max [] = None"
| "py_max (x # xs) = Some (fold max xs x)"

text \<open>\<open>for _ in range(n_atoms): _ = fin.readline()\<close>\<close>

fun skip_lines :: "nat \<Rightarrow> state \<Rightarrow> (exn \<times> state) + state" where
  "skip_lines 0 s = Inr s"
| "skip_lines (Suc k) s =
     (case readline s of Inl e \<Rightarrow> Inl e | Inr (_, s') \<Rightarrow> skip_lines k s')"

text \<open>
  The loop that reads the atom lines; \<open>k\<close> counts the iterations still to run, and the
  result carries \<open>read_ok\<close> and \<open>atom_lines\<close>.
\<close>

fun read_atoms ::
  "path \<Rightarrow> int \<Rightarrow> nat \<Rightarrow> string list \<Rightarrow> state \<Rightarrow> (exn \<times> state) + (bool \<times> string list \<times> state)"
where
  "read_atoms fp n_atoms 0 atom_lines s = Inr (True, atom_lines, s)"
| "read_atoms fp n_atoms (Suc k) atom_lines s =
     (case readline s of
        Inl e \<Rightarrow> Inl e
      | Inr (line, s') \<Rightarrow>
          if line = [] then
            Inr (False, atom_lines, logger (EOF_reading_atoms n_atoms fp (block_count s')) s')
          else read_atoms fp n_atoms k (atom_lines @ [rstrip_nl line]) s')"

text \<open>
  The header: \<open>str.format\<close> with the ten placeholders \<open>{0}\<close>..\<open>{9}\<close> raises
  \<open>IndexError\<close> when fewer than ten values are passed and ignores values beyond the
  tenth; the handler then builds the fallback header.
\<close>

definition header_labels :: "string list" where
  "header_labels =
     [''CCSD(T)/CBS='', '' CCSD(T)/haTZ='', '' MP2/haTZ='', '' MP2/CBS='', '' MP2/aTZ='',
      '' MP2/aQZ='', '' HF/haTZ='', '' HF/aTZ='', '' HF/aQZ='', '' SAPT2+/aDZTot='']"

definition properties_marker :: string where
  "properties_marker = '' Properties=species:S:1:pos:R:3''"

definition format_header :: "string list \<Rightarrow> string option" where
  "format_header meta_values =
     (if length meta_values < 10 then None
      else Some (concat (map (\<lambda>(l, v). l @ v) (zip header_labels meta_values))
                 @ properties_marker))"

definition make_header :: "string list \<Rightarrow> string" where
  "make_header meta_values =
     (case format_header meta_values of
        Some h \<Rightarrow> h
      | None \<Rightarrow> join '' '' (map (\<lambda>v. ''meta:'' @ v) meta_values) @ properties_marker)"

text \<open>\<open>for al in atom_lines: fout.write(al + "\n")\<close>\<close>

fun write_lines :: "string list \<Rightarrow> state \<Rightarrow> (exn \<times> state) + state" where
  "write_lines [] s = Inr s"
| "write_lines (al # als) s =
     (case write_out (al @ ''\<newline>'') s of Inl e \<Rightarrow> Inl e | Inr s' \<Rightarrow> write_lines als s')"

text \<open>
  One pass through the body of \<open>while True\<close> ends in \<open>continue\<close> (also by falling off
  the end of the body), in \<open>break\<close>, or in an exception that leaves the loop.
\<close>

datatype outcome = Continue state | Break state | Raise exn state

text \<open>Writing out the reformatted block, and counting it.\<close>

definition write_block :: "int \<Rightarrow> string \<Rightarrow> string list \<Rightarrow> state \<Rightarrow> outcome" where
  "write_block n_atoms header atom_lines s =
     (case write_out (str_int n_atoms @ ''\<newline>'') s of
        Inl (e, s') \<Rightarrow> Raise e s'
      | Inr s1 \<Rightarrow>
     (case write_out (header @ ''\<newline>'') s1 of
        Inl (e, s') \<Rightarrow> Raise e s'
      | Inr s2 \<Rightarrow>
     (case write_lines atom_lines s2 of
        Inl (e, s') \<Rightarrow> Raise e s'
      | Inr s3 \<Rightarrow> Continue (s3\<lparr>block_count := block_count s3 + 1\<rparr>))))"

text \<open>The body from the metadata line on, for a count line that parsed as \<open>n_atoms\<close>.\<close>

definition read_block :: "path \<Rightarrow> int list \<Rightarrow> int \<Rightarrow> state \<Rightarrow> outcome" where
  "read_block fp idx n_atoms s =
     (case readline s of
        Inl (e, s') \<Rightarrow> Raise e s'
      | Inr (meta_line, s1) \<Rightarrow>
          if meta_line = [] then Break (logger (EOF_reading_metadata fp) s1)
          else
            let meta_tokens = split_ws (strip meta_line) in
            (case py_max idx of
               None \<Rightarrow> Raise ValueError s1
             | Some m \<Rightarrow>
                 if m \<ge> int (length meta_tokens) then
                   (case skip_lines (nat n_atoms)
                           (logger (Metadata_too_short (length meta_tokens) (m + 1) fp) s1) of
                      Inl (e, s') \<Rightarrow> Raise e s'
                    | Inr s2 \<Rightarrow> Continue s2)
                 else
                   (case all_some (map (py_index meta_tokens) idx) of
                      None \<Rightarrow>
                        (case skip_lines (nat n_atoms) (logger Failed_to_extract s1) of
                           Inl (e, s') \<Rightarrow> Raise e s'
                         | Inr s2 \<Rightarrow> Continue s2)
                    | Some meta_values \<Rightarrow>
                        (case read_atoms fp n_atoms (nat n_atoms) [] s1 of
                           Inl (e, s') \<Rightarrow> Raise e s'
                         | Inr (read_ok, atom_lines, s2) \<Rightarrow>
                             if \<not> read_ok then Break s2
                             else write_block n_atoms (make_header meta_values) atom_lines s2))))"

text \<open>The whole body: scanning for a count line, then the block.\<close>

definition body :: "path \<Rightarrow> int list \<Rightarrow> state \<Rightarrow> outcome" where
  "body fp idx s =
     (case readline s of
        Inl (e, s') \<Rightarrow> Raise e s'
      | Inr (first, s1) \<Rightarrow>
          if first = [] then Break s1
          else
            let first = strip first in
            if first = [] then Continue s1
            else
              (case py_int first of
                 None \<Rightarrow> Continue (logger (Expected_integer first fp) s1)
               | Some n_atoms \<Rightarrow> read_block fp idx n_atoms s1))"

lemma io_step_fin: "io_step s = Inr s' \<Longrightarrow> fin s' = fin s"
  by (auto simp: io_step_def split: option.splits nat.splits)

lemma readline_fin:
  "readline s = Inr (l, s') \<Longrightarrow> length (fin s') \<le> length (fin s)"
  by (auto simp: readline_def split: sum.splits list.splits dest: io_step_fin)

lemma readline_fin_less:
  "readline s = Inr (l, s') \<Longrightarrow> l \<noteq> [] \<Longrightarrow> length (fin s') < length (fin s)"
  by (auto simp: readline_def split: sum.splits list.splits dest: io_step_fin)

lemma write_fin: "write_out x s = Inr s' \<Longrightarrow> fin s' = fin s"
  by (auto simp: write_out_def split: sum.splits dest: io_step_fin)

lemma logger_fin [simp]: "fin (logger e s) = fin s"
  by (simp add: logger_def)

lemma skip_lines_fin:
  "skip_lines k s = Inr s' \<Longrightarrow> length (fin s') \<le> length (fin s)"
proof (induction k arbitrary: s)
  case 0
  then show ?case by simp
next
  case (Suc k)
  then show ?case
    by (fastforce split: sum.splits prod.splits dest: readline_fin)
qed

lemma read_atoms_fin:
  "read_atoms fp n k acc s = Inr (ok, ls, s') \<Longrightarrow> length (fin s') \<le> length (fin s)"
proof (induction k arbitrary: s acc)
  case 0
  then show ?case by simp
next
  case (Suc k)
  then show ?case
    by (fastforce split: sum.splits prod.splits if_splits dest: readline_fin)
qed

lemma write_lines_fin: "write_lines als s = Inr s' \<Longrightarrow> fin s' = fin s"
proof (induction als arbitrary: s)
  case Nil
  then show ?case by simp
next
  case (Cons al als)
  then show ?case
    by (fastforce split: sum.splits dest: write_fin)
qed

lemma write_block_fin:
  "write_block n h als s = Continue s' \<Longrightarrow> fin s' = fin s"
  by (auto simp: write_block_def split: sum.splits prod.splits
           dest!: write_fin write_lines_fin)

lemma read_block_fin:
  "read_block fp idx n s = Continue s' \<Longrightarrow> length (fin s') \<le> length (fin s)"
  unfolding read_block_def Let_def
  by (auto split: sum.splits prod.splits if_splits option.splits
           dest!: readline_fin skip_lines_fin read_atoms_fin write_block_fin)

lemma body_fin:
  "body fp idx s = Continue s' \<Longrightarrow> length (fin s') < length (fin s)"
  unfolding body_def Let_def
  by (auto split: sum.splits prod.splits if_splits option.splits
           dest!: readline_fin_less read_block_fin)

text \<open>\<open>while True:\<close>\<close>

function loop :: "path \<Rightarrow> int list \<Rightarrow> state \<Rightarrow> (exn \<times> state) + state" where
  "loop fp idx s =
     (case body fp idx s of
        Continue s' \<Rightarrow> loop fp idx s'
      | Break s' \<Rightarrow> Inr s'
      | Raise e s' \<Rightarrow> Inl (e, s'))"
  by pat_completeness auto
termination
  by (relation "measure (\<lambda>(fp, idx, s). length (fin s))") (auto dest: body_fin)

section \<open>Output names\<close>

text \<open>
  \<open>name.rfind('.')\<close>, and \<open>PurePath.suffix\<close> and \<open>PurePath.stem\<close> as pathlib defines
  them up to Python 3.13: with \<open>i = name.rfind('.')\<close>, the suffix is \<open>name[i:]\<close> and
  the stem \<open>name[:i]\<close> when \<open>0 < i < len(name) - 1\<close>; otherwise the suffix is empty and
  the stem is the whole name.
\<close>

definition rfind :: "char \<Rightarrow> string \<Rightarrow> int" where
  "rfind c s = (if c \<in> set s
                then int (length s) - 1 - int (length (takeWhile (\<lambda>x. x \<noteq> c) (rev s)))
                else - 1)"

definition path_suffix :: "string \<Rightarrow> string" where
  "path_suffix name =
     (let i = rfind CHR ''.'' name
      in if 0 < i \<and> i < int (length name) - 1 then drop (nat i) name else [])"

definition path_stem :: "string \<Rightarrow> string" where
  "path_stem name =
     (let i = rfind CHR ''.'' name
      in if 0 < i \<and> i < int (length name) - 1 then take (nat i) name else name)"

text \<open>
  \<open>in_path.with_name(name)\<close> raises \<open>ValueError\<close> when the path has an empty final
  component or the new name is not a single component.
\<close>

definition with_name :: "path \<Rightarrow> string \<Rightarrow> exn + path" where
  "with_name p name =
     (if snd p = [] \<or> name = [] \<or> CHR ''/'' \<in> set name \<or> name = ''.'' then Inl ValueError
      else Inr (fst p, name))"

text \<open>The new file name, lines 35 to 45 of \<open>make_output_name\<close>.\<close>

definition out_name :: "string \<Rightarrow> string" where
  "out_name name =
     (let parts = split_on CHR ''.'' name in
      if length parts \<ge> 3 then
        let pre = join ''.'' (take (length parts - 2) parts);
            mid = parts ! (length parts - 2);
            suf = parts ! (length parts - 1)
        in pre @ ''.'' @ mid @ ''_reformat.'' @ suf
      else path_stem name @ ''_reformat'' @ path_suffix name)"

definition make_output_name :: "path \<Rightarrow> exn + path" where
  "make_output_name in_path = with_name in_path (out_name (snd in_path))"

section \<open>The file system\<close>

text \<open>
  The files are an association list from paths to nodes, the console is the log, and
  \<open>io_faults\<close> gives, for the processing of an input file, the number of stream
  operations that succeed before the operating system reports an error; a file without
  an entry is processed without I/O failure.
\<close>

datatype node = Directory | Regular string

record world =
  files :: "(path \<times> node) list"
  console :: "event list"
  io_faults :: "(path \<times> nat) list"



text \<open>
  Opening the input for reading fails unless it is a regular file; opening the output
  for writing fails on a directory and otherwise creates or truncates the file.
\<close>

definition open_read :: "path \<Rightarrow> world \<Rightarrow> state \<Rightarrow> (exn \<times> state) + state" where
  "open_read p w s =
     (case io_step s of
        Inl e \<Rightarrow> Inl e
      | Inr s' \<Rightarrow> (case map_of (files w) p of
                     Some (Regular c) \<Rightarrow> Inr (s'\<lparr>fin := readlines c\<rparr>)
                   | _ \<Rightarrow> Inl (OSError, s')))"

definition open_write :: "path \<Rightarrow> world \<Rightarrow> state \<Rightarrow> (exn \<times> state) + (world \<times> state)" where
  "open_write p w s =
     (case io_step s of
        Inl e \<Rightarrow> Inl e
      | Inr s' \<Rightarrow> (case map_of (files w) p of
                     Some Directory \<Rightarrow> Inl (OSError, s')
                   | _ \<Rightarrow> Inr (w\<lparr>files := AList.update p (Regular []) (files w)\<rparr>, s')))"

text \<open>Leaving the \<open>with\<close> statement: the output file holds what was written.\<close>

definition close_files :: "world \<Rightarrow> path \<Rightarrow> state \<Rightarrow> world" where
  "close_files w out_path s =
     w\<lparr>files := AList.update out_path (Regular (fout s)) (files w), console := logged s\<rparr>"

text \<open>
  The \<open>with\<close> statement inside \<open>try\<close>, lines 62 to 137.  Closing flushes the output
  and is a stream operation of its own.
\<close>

definition with_files :: "int list \<Rightarrow> path \<Rightarrow> path \<Rightarrow> world \<Rightarrow> (exn \<times> world) + world" where
  "with_files idx file_path out_path w =
     (let s0 = \<lparr>fin = [], fout = [], logged = console w, block_count = 0,
                io_budget = map_of (io_faults w) file_path\<rparr> in
      case open_read file_path w s0 of
        Inl (e, s) \<Rightarrow> Inl (e, w)
      | Inr s1 \<Rightarrow>
     (case open_write out_path w s1 of
        Inl (e, s) \<Rightarrow> Inl (e, w)
      | Inr (w1, s2) \<Rightarrow>
     (case loop file_path idx s2 of
        Inl (e, s) \<Rightarrow> Inl (e, close_files w1 out_path s)
      | Inr s3 \<Rightarrow>
          let s4 = logger (Finished_file file_path (block_count s3) out_path) s3 in
          (case io_step s4 of
             Inl (e, s) \<Rightarrow> Inl (e, close_files w1 out_path s)
           | Inr s5 \<Rightarrow> Inr (close_files w1 out_path s5)))))"

definition process_file_with :: "int list \<Rightarrow> path \<Rightarrow> string option \<Rightarrow> world \<Rightarrow> exn + world" where
  "process_file_with idx file_path out_dir w0 =
     (let w = w0\<lparr>console := console w0 @ [Processing_file file_path]\<rparr>;
          out_dir = (case out_dir of None \<Rightarrow> fst file_path | Some d \<Rightarrow> d)
      in case make_output_name file_path of
           Inl e \<Rightarrow> Inl e
         | Inr out_path \<Rightarrow>
             let out_path = (if out_dir \<noteq> fst file_path then (out_dir, snd out_path)
                             else out_path)
             in Inr (case with_files idx file_path out_path w of
                       Inl (e, w') \<Rightarrow> w'\<lparr>console := console w' @ [Fatal_error file_path e]\<rparr>
                     | Inr w' \<Rightarrow> w'))"

definition process_file :: "path \<Rightarrow> string option \<Rightarrow> world \<Rightarrow> exn + world" where
  "process_file = process_file_with METADATA_INDICES"





section \<open>The crude reformat function of the ingestion script\<close>





lemma py_int_Nil [simp]: "py_int [] = None"
  by (simp add: py_int_def strip_def)




section \<open>Notions used in the statements\<close>

text \<open>
  The text of a block in the output: the count on its own line, the header line, then
  the atom lines, each followed by a line terminator.
\<close>

definition block_text :: "int \<Rightarrow> string \<Rightarrow> string list \<Rightarrow> string" where
  "block_text n header atom_lines =
     str_int n @ ''\<newline>'' @ header @ ''\<newline>'' @ concat (map (\<lambda>l. l @ ''\<newline>'') atom_lines)"

text \<open>The tokens at the indices of \<open>METADATA_INDICES\<close>.\<close>

definition selected :: "string list \<Rightarrow> string list" where
  "selected meta_tokens = map (\<lambda>i. meta_tokens ! nat i) METADATA_INDICES"

text \<open>
  A block of the input is its count line, its metadata line and its atom lines, as
  \<open>readline\<close> returns them.  It is well formed when the count line parses as the
  number of its atom lines and the metadata line has a token for every selected index.
  \<open>reformatted\<close> is the text of the block in the output.
\<close>

type_synonym block = "string \<times> string \<times> string list"

definition block_lines :: "block \<Rightarrow> string list" where
  "block_lines b = (case b of (count_line, meta_line, atom_lines) \<Rightarrow>
                      count_line # meta_line # atom_lines)"

definition well_formed :: "block \<Rightarrow> bool" where
  "well_formed b = (case b of (count_line, meta_line, atom_lines) \<Rightarrow>
       strip count_line \<noteq> []
     \<and> py_int (strip count_line) = Some (int (length atom_lines))
     \<and> 35 \<le> length (split_ws (strip meta_line))
     \<and> [] \<notin> set atom_lines)"

definition reformatted :: "block \<Rightarrow> string" where
  "reformatted b = (case b of (count_line, meta_line, atom_lines) \<Rightarrow>
       block_text (int (length atom_lines))
                  (make_header (selected (split_ws (strip meta_line))))
                  (map rstrip_nl atom_lines))"


text \<open>The files for which \<open>Processing file\<close> was logged, in the order of the log.\<close>

fun processed :: "event list \<Rightarrow> path list" where
  "processed [] = []"
| "processed (Processing_file p # es) = p # processed es"
| "processed (e # es) = processed es"




section \<open>Sample data for the witnesses\<close>

text \<open>
  A metadata line of \<open>k\<close> tokens, a fresh state on given lines, and the inputs,
  states and file systems at which the theorems are instantiated.
\<close>

definition sample_meta :: "nat \<Rightarrow> string" where
  "sample_meta k = join '' '' (map str_nat [0..<k]) @ ''\<newline>''"

definition sample_state :: "string list \<Rightarrow> state" where
  "sample_state ls = \<lparr>fin = ls, fout = [], logged = [], block_count = 0, io_budget = None\<rparr>"

definition sample_input :: string where
  "sample_input = ''2\<newline>'' @ sample_meta 35 @ ''C 0 0 0\<newline>H 1 0 0\<newline>9\<newline>''"

definition sample_after :: state where
  "sample_after =
     \<lparr>fin = [''9\<newline>''],
      fout = ''2\<newline>CCSD(T)/CBS=16 CCSD(T)/haTZ=18 MP2/haTZ=20 MP2/CBS=22 MP2/aTZ=24 MP2/aQZ=26 HF/haTZ=28 HF/aTZ=30 HF/aQZ=32 SAPT2+/aDZTot=34 Properties=species:S:1:pos:R:3\<newline>C 0 0 0\<newline>H 1 0 0\<newline>'',
      logged = [], block_count = 1, io_budget = None\<rparr>"

definition sample_block :: string where
  "sample_block = ''2\<newline>'' @ sample_meta 35 @ ''C 0 0 0\<newline>H 1 0 0\<newline>''"

definition sample_world :: "string \<Rightarrow> world" where
  "sample_world content =
     \<lparr>files = [((''data'', ''mol.xyz''), Regular content)], console = [], io_faults = []\<rparr>"


section \<open>Runs without I/O failure\<close>

declare loop.simps [simp del]
declare str_nat.simps [simp del]

lemma io_step_None: "io_budget s = None \<Longrightarrow> io_step s = Inr s"
  by (simp add: io_step_def)

lemma readline_None_Nil: "io_budget s = None \<Longrightarrow> fin s = [] \<Longrightarrow> readline s = Inr ([], s)"
  by (simp add: readline_def io_step_None)

lemma readline_None_Cons:
  "io_budget s = None \<Longrightarrow> fin s = l # ls \<Longrightarrow> readline s = Inr (l, s\<lparr>fin := ls\<rparr>)"
  by (simp add: readline_def io_step_None)

lemma write_out_None: "io_budget s = None \<Longrightarrow> write_out x s = Inr (s\<lparr>fout := fout s @ x\<rparr>)"
  by (simp add: write_out_def io_step_None)

lemma skip_lines_None:
  "io_budget s = None \<Longrightarrow> skip_lines k s = Inr (s\<lparr>fin := drop k (fin s)\<rparr>)"
proof (induction k arbitrary: s)
  case 0
  then show ?case by simp
next
  case (Suc k)
  show ?case
  proof (cases "fin s")
    case Nil
    with Suc show ?thesis by (simp add: readline_None_Nil)
  next
    case (Cons l ls)
    with Suc show ?thesis by (simp add: readline_None_Cons)
  qed
qed

lemma write_lines_None:
  "io_budget s = None \<Longrightarrow>
   write_lines als s = Inr (s\<lparr>fout := fout s @ concat (map (\<lambda>l. l @ ''\<newline>'') als)\<rparr>)"
proof (induction als arbitrary: s)
  case Nil
  then show ?case by simp
next
  case (Cons al als)
  then show ?case by (simp add: write_out_None)
qed

lemma read_atoms_None_ok:
  "io_budget s = None \<Longrightarrow> k \<le> length (fin s) \<Longrightarrow> [] \<notin> set (take k (fin s)) \<Longrightarrow>
   read_atoms fp n k acc s
     = Inr (True, acc @ map rstrip_nl (take k (fin s)), s\<lparr>fin := drop k (fin s)\<rparr>)"
proof (induction k arbitrary: s acc)
  case 0
  then show ?case by simp
next
  case (Suc k)
  then obtain l ls where f: "fin s = l # ls" by (cases "fin s") auto
  with Suc.prems have "l \<noteq> []" by auto
  with Suc f show ?case by (simp add: readline_None_Cons)
qed

lemma read_atoms_None_eof:
  "io_budget s = None \<Longrightarrow> length (fin s) < k \<Longrightarrow>
   \<exists>acc' r. read_atoms fp n k acc s
     = Inr (False, acc', s\<lparr>fin := r, logged := logged s @ [EOF_reading_atoms n fp (block_count s)]\<rparr>)"
proof (induction k arbitrary: s acc)
  case 0
  then show ?case by simp
next
  case (Suc k)
  show ?case
  proof (cases "fin s")
    case Nil
    with Suc.prems have "read_atoms fp n (Suc k) acc s
      = Inr (False, acc, s\<lparr>fin := [], logged := logged s @ [EOF_reading_atoms n fp (block_count s)]\<rparr>)"
      by (simp add: readline_None_Nil logger_def)
    then show ?thesis by blast
  next
    case (Cons l ls)
    show ?thesis
    proof (cases "l = []")
      case True
      with Cons Suc.prems have "read_atoms fp n (Suc k) acc s
        = Inr (False, acc, s\<lparr>fin := ls, logged := logged s @ [EOF_reading_atoms n fp (block_count s)]\<rparr>)"
        by (simp add: readline_None_Cons logger_def)
      then show ?thesis by blast
    next
      case False
      from Cons Suc.prems have "length (fin (s\<lparr>fin := ls\<rparr>)) < k" "io_budget (s\<lparr>fin := ls\<rparr>) = None"
        by auto
      from Suc.IH[OF this(2) this(1), of "acc @ [rstrip_nl l]"] Cons False Suc.prems
      show ?thesis by (auto simp add: readline_None_Cons)
    qed
  qed
qed

lemma py_max_METADATA [simp]: "py_max METADATA_INDICES = Some 34"
  by (simp add: METADATA_INDICES_def)

lemma selected_tokens:
  "35 \<le> length toks \<Longrightarrow>
   all_some (map (py_index toks) METADATA_INDICES) = Some (selected toks)"
  by (simp add: METADATA_INDICES_def py_index_def selected_def)

lemma write_block_None:
  "io_budget s = None \<Longrightarrow>
   write_block n h als s
     = Continue (s\<lparr>fout := fout s @ block_text n h als, block_count := block_count s + 1\<rparr>)"
  by (simp add: write_block_def write_out_None write_lines_None block_text_def)

lemma read_block_short:
  assumes "io_budget s = None" "fin s = meta_line # rest"
    and "length (split_ws (strip meta_line)) < 35"  "meta_line \<noteq> []"
  shows "read_block fp METADATA_INDICES n s
     = Continue (s\<lparr>fin := drop (nat n) rest,
                   logged := logged s @ [Metadata_too_short (length (split_ws (strip meta_line))) 35 fp]\<rparr>)"
  using assms
  by (simp add: read_block_def readline_None_Cons skip_lines_None logger_def)

lemma read_block_emit:
  assumes "io_budget s = None" "fin s = meta_line # rest"
    and "35 \<le> length (split_ws (strip meta_line))"
    and "nat n \<le> length rest" "[] \<notin> set (take (nat n) rest)"
  shows "read_block fp METADATA_INDICES n s
     = Continue (s\<lparr>fin := drop (nat n) rest,
                   fout := fout s @ block_text n
                      (make_header (selected (split_ws (strip meta_line))))
                      (map rstrip_nl (take (nat n) rest)),
                   block_count := block_count s + 1\<rparr>)"
proof -
  from assms(3) have ne: "meta_line \<noteq> []" by (auto simp: strip_def split_ws_def)
  show ?thesis
    using assms ne
    by (simp add: read_block_def readline_None_Cons selected_tokens read_atoms_None_ok
                  write_block_None Let_def)
qed

lemma body_count:
  assumes "io_budget s = None" "fin s = first # rest" "strip first \<noteq> []"
    and "py_int (strip first) = Some n"
  shows "body fp idx s = read_block fp idx n (s\<lparr>fin := rest\<rparr>)"
proof -
  from assms(3) have "first \<noteq> []" by (auto simp: strip_def)
  with assms show ?thesis by (simp add: body_def readline_None_Cons)
qed

lemma body_bad_count:
  assumes "io_budget s = None" "fin s = first # rest" "strip first \<noteq> []"
    and "py_int (strip first) = None"
  shows "body fp idx s = Continue (s\<lparr>fin := rest, logged := logged s @ [Expected_integer (strip first) fp]\<rparr>)"
proof -
  from assms(3) have "first \<noteq> []" by (auto simp: strip_def)
  with assms show ?thesis by (simp add: body_def readline_None_Cons logger_def)
qed

lemma body_blank:
  assumes "io_budget s = None" "fin s = first # rest" "first \<noteq> []" "strip first = []"
  shows "body fp idx s = Continue (s\<lparr>fin := rest\<rparr>)"
  using assms by (simp add: body_def readline_None_Cons)

lemma body_eof:
  assumes "io_budget s = None" "fin s = []"
  shows "body fp idx s = Break s"
  using assms by (simp add: body_def readline_None_Nil)

lemma loop_Continue: "body fp idx s = Continue s' \<Longrightarrow> loop fp idx s = loop fp idx s'"
  by (subst loop.simps) simp

lemma loop_Break: "body fp idx s = Break s' \<Longrightarrow> loop fp idx s = Inr s'"
  by (subst loop.simps) simp


lemma tokens_nonempty_line: "split_ws (strip l) \<noteq> [] \<Longrightarrow> l \<noteq> []"
  by (auto simp: strip_def split_ws_def)

text \<open>
  C2.  In a run without I/O failure, take a count line that parses as \<open>n\<close>, followed by
  a metadata line.  The largest selected index is 34.  If the metadata line splits into
  exactly 34 tokens, the body logs one warning, writes nothing, drops the next \<open>n\<close>
  lines of the input (\<open>drop (nat n) rest\<close>: exactly \<open>n\<close> lines when the block has its
  atom lines) and ends in \<open>continue\<close>.  If it splits into exactly 35 tokens and the
  \<open>n\<close> atom lines are there, the block is written and counted.
\<close>

theorem metadata_token_boundary:
  assumes "io_budget s = None"
    and "fin s = first # meta_line # rest"
    and "strip first \<noteq> []" and "py_int (strip first) = Some n"
  shows "(length (split_ws (strip meta_line)) = 34 \<longrightarrow>
            level_of (Metadata_too_short 34 35 fp) = WARNING \<and>
            body fp METADATA_INDICES s
              = Continue (s\<lparr>fin := drop (nat n) rest,
                            logged := logged s @ [Metadata_too_short 34 35 fp]\<rparr>))
       \<and> (length (split_ws (strip meta_line)) = 35 \<and> nat n \<le> length rest
              \<and> [] \<notin> set (take (nat n) rest) \<longrightarrow>
            body fp METADATA_INDICES s
              = Continue (s\<lparr>fin := drop (nat n) rest,
                            fout := fout s @ block_text n
                               (make_header (selected (split_ws (strip meta_line))))
                               (map rstrip_nl (take (nat n) rest)),
                            block_count := block_count s + 1\<rparr>))"
proof (intro conjI impI)
  show "level_of (Metadata_too_short 34 35 fp) = WARNING" by simp
next
  assume len: "length (split_ws (strip meta_line)) = 34"
  then have ne: "meta_line \<noteq> []" by (intro tokens_nonempty_line) auto
  have "body fp METADATA_INDICES s = read_block fp METADATA_INDICES n (s\<lparr>fin := meta_line # rest\<rparr>)"
    using assms by (rule body_count)
  also have "\<dots> = Continue ((s\<lparr>fin := meta_line # rest\<rparr>)\<lparr>fin := drop (nat n) rest,
       logged := logged (s\<lparr>fin := meta_line # rest\<rparr>)
                 @ [Metadata_too_short (length (split_ws (strip meta_line))) 35 fp]\<rparr>)"
    using assms(1) len ne by (intro read_block_short) auto
  finally show "body fp METADATA_INDICES s
      = Continue (s\<lparr>fin := drop (nat n) rest, logged := logged s @ [Metadata_too_short 34 35 fp]\<rparr>)"
    using len by simp
next
  assume a: "length (split_ws (strip meta_line)) = 35 \<and> nat n \<le> length rest
              \<and> [] \<notin> set (take (nat n) rest)"
  have "body fp METADATA_INDICES s = read_block fp METADATA_INDICES n (s\<lparr>fin := meta_line # rest\<rparr>)"
    using assms by (rule body_count)
  also have "\<dots> = Continue ((s\<lparr>fin := meta_line # rest\<rparr>)\<lparr>fin := drop (nat n) rest,
       fout := fout (s\<lparr>fin := meta_line # rest\<rparr>) @ block_text n
                 (make_header (selected (split_ws (strip meta_line))))
                 (map rstrip_nl (take (nat n) rest)),
       block_count := block_count (s\<lparr>fin := meta_line # rest\<rparr>) + 1\<rparr>)"
    using assms(1) a by (intro read_block_emit) auto
  finally show "body fp METADATA_INDICES s
      = Continue (s\<lparr>fin := drop (nat n) rest,
                    fout := fout s @ block_text n
                       (make_header (selected (split_ws (strip meta_line))))
                       (map rstrip_nl (take (nat n) rest)),
                    block_count := block_count s + 1\<rparr>)"
    by simp
qed

text \<open>
  C9.  A white-space-only line right after a count line \<open>n\<close> is not skipped: it is the
  metadata line, it has no tokens, and the block goes through the branch for too few
  tokens: one warning, no output, the next \<open>n\<close> lines dropped (whatever they hold,
  also a line that would have been a metadata line), then \<open>continue\<close>.
\<close>

theorem blank_metadata_line:
  assumes "io_budget s = None"
    and "fin s = first # blank # rest"
    and "strip first \<noteq> []" and "py_int (strip first) = Some n"
    and "blank \<noteq> []" and "strip blank = []"
  shows "split_ws (strip blank) = []
       \<and> level_of (Metadata_too_short 0 35 fp) = WARNING
       \<and> body fp METADATA_INDICES s
           = Continue (s\<lparr>fin := drop (nat n) rest,
                         logged := logged s @ [Metadata_too_short 0 35 fp]\<rparr>)"
proof -
  have tok: "split_ws (strip blank) = []" using assms(6) by (simp add: split_ws_def)
  have "body fp METADATA_INDICES s = read_block fp METADATA_INDICES n (s\<lparr>fin := blank # rest\<rparr>)"
    using assms(1-4) by (rule body_count)
  also have "\<dots> = Continue ((s\<lparr>fin := blank # rest\<rparr>)\<lparr>fin := drop (nat n) rest,
       logged := logged (s\<lparr>fin := blank # rest\<rparr>)
                 @ [Metadata_too_short (length (split_ws (strip blank))) 35 fp]\<rparr>)"
    using assms(1,5) tok by (intro read_block_short) auto
  finally show ?thesis using tok by simp
qed

text \<open>C2, witness: a block of one atom with 34 tokens, and the same block with 35.\<close>

theorem metadata_token_boundary_witness:
  "body (''d'', ''f'') METADATA_INDICES
      (sample_state [''1\<newline>'', sample_meta 34, ''H 0 0 0\<newline>'', ''7\<newline>''])
     = Continue ((sample_state [''1\<newline>'', sample_meta 34, ''H 0 0 0\<newline>'', ''7\<newline>''])
          \<lparr>fin := drop (nat 1) [''H 0 0 0\<newline>'', ''7\<newline>''],
            logged := [] @ [Metadata_too_short 34 35 (''d'', ''f'')]\<rparr>)
   \<and> body (''d'', ''f'') METADATA_INDICES
      (sample_state [''1\<newline>'', sample_meta 35, ''H 0 0 0\<newline>'', ''7\<newline>''])
     = Continue ((sample_state [''1\<newline>'', sample_meta 35, ''H 0 0 0\<newline>'', ''7\<newline>''])
          \<lparr>fin := drop (nat 1) [''H 0 0 0\<newline>'', ''7\<newline>''],
            fout := [] @ block_text 1 (make_header (selected (split_ws (strip (sample_meta 35)))))
                      (map rstrip_nl (take (nat 1) [''H 0 0 0\<newline>'', ''7\<newline>''])),
            block_count := 0 + 1\<rparr>)"
proof -
  let ?r = "[''H 0 0 0\<newline>'', ''7\<newline>'']"
  let ?a = "sample_state [''1\<newline>'', sample_meta 34, ''H 0 0 0\<newline>'', ''7\<newline>'']"
  let ?b = "sample_state [''1\<newline>'', sample_meta 35, ''H 0 0 0\<newline>'', ''7\<newline>'']"
  have c1: "strip ''1\<newline>'' \<noteq> []" by code_simp
  have c2: "py_int (strip ''1\<newline>'') = Some 1" by code_simp
  have a1: "io_budget ?a = None" by (simp add: sample_state_def)
  have a2: "fin ?a = ''1\<newline>'' # sample_meta 34 # ?r" by (simp add: sample_state_def)
  have a3: "length (split_ws (strip (sample_meta 34))) = 34" by code_simp
  have b1: "io_budget ?b = None" by (simp add: sample_state_def)
  have b2: "fin ?b = ''1\<newline>'' # sample_meta 35 # ?r" by (simp add: sample_state_def)
  have b3: "length (split_ws (strip (sample_meta 35))) = 35 \<and> nat 1 \<le> length ?r
              \<and> [] \<notin> set (take (nat 1) ?r)" by code_simp
  have fa: "fout ?a = []" "logged ?a = []" "block_count ?a = 0" by (simp_all add: sample_state_def)
  have fb: "fout ?b = []" "logged ?b = []" "block_count ?b = 0" by (simp_all add: sample_state_def)
  from metadata_token_boundary[OF a1 a2 c1 c2, of "(''d'', ''f'')"] a3
  have A: "body (''d'', ''f'') METADATA_INDICES ?a
     = Continue (?a\<lparr>fin := drop (nat 1) ?r, logged := logged ?a @ [Metadata_too_short 34 35 (''d'', ''f'')]\<rparr>)"
    by blast
  from metadata_token_boundary[OF b1 b2 c1 c2, of "(''d'', ''f'')"] b3
  have B: "body (''d'', ''f'') METADATA_INDICES ?b
     = Continue (?b\<lparr>fin := drop (nat 1) ?r,
          fout := fout ?b @ block_text 1 (make_header (selected (split_ws (strip (sample_meta 35)))))
                      (map rstrip_nl (take (nat 1) ?r)),
          block_count := block_count ?b + 1\<rparr>)"
    by blast
  from A B show ?thesis unfolding fa fb by (rule conjI)
qed

text \<open>C9, witness: the line after the count \<open>2\<close> is a single space.\<close>

theorem blank_metadata_line_witness:
  "body (''d'', ''f'') METADATA_INDICES
      (sample_state [''2\<newline>'', '' \<newline>'', sample_meta 35, ''H 0 0 0\<newline>'', ''H 1 0 0\<newline>''])
     = Continue ((sample_state [''2\<newline>'', '' \<newline>'', sample_meta 35, ''H 0 0 0\<newline>'', ''H 1 0 0\<newline>''])
          \<lparr>fin := drop (nat 2) [sample_meta 35, ''H 0 0 0\<newline>'', ''H 1 0 0\<newline>''],
            logged := [] @ [Metadata_too_short 0 35 (''d'', ''f'')]\<rparr>)"
proof -
  let ?r = "[sample_meta 35, ''H 0 0 0\<newline>'', ''H 1 0 0\<newline>'']"
  let ?s = "sample_state [''2\<newline>'', '' \<newline>'', sample_meta 35, ''H 0 0 0\<newline>'', ''H 1 0 0\<newline>'']"
  have h1: "io_budget ?s = None" by (simp add: sample_state_def)
  have h2: "fin ?s = ''2\<newline>'' # '' \<newline>'' # ?r" by (simp add: sample_state_def)
  have h3: "strip ''2\<newline>'' \<noteq> []" by code_simp
  have h4: "py_int (strip ''2\<newline>'') = Some 2" by code_simp
  have h5: "'' \<newline>'' \<noteq> []" by simp
  have h6: "strip '' \<newline>'' = []" by code_simp
  have l: "logged ?s = []" by (simp add: sample_state_def)
  from blank_metadata_line[OF h1 h2 h3 h4 h5 h6, of "(''d'', ''f'')"]
  have "body (''d'', ''f'') METADATA_INDICES ?s
     = Continue (?s\<lparr>fin := drop (nat 2) ?r, logged := logged ?s @ [Metadata_too_short 0 35 (''d'', ''f'')]\<rparr>)"
    by blast
  then show ?thesis unfolding l .
qed

lemma body_valid_block:
  assumes "io_budget s = None"
    and "fin s = count_line # meta_line # atom_lines @ rest"
    and "strip count_line \<noteq> []"
    and "py_int (strip count_line) = Some (int (length atom_lines))"
    and "35 \<le> length (split_ws (strip meta_line))"
    and "[] \<notin> set atom_lines"
  shows "body fp METADATA_INDICES s
     = Continue (s\<lparr>fin := rest,
                   fout := fout s @ block_text (int (length atom_lines))
                              (make_header (selected (split_ws (strip meta_line))))
                              (map rstrip_nl atom_lines),
                   block_count := block_count s + 1\<rparr>)"
proof -
  let ?n = "int (length atom_lines)"
  have "body fp METADATA_INDICES s
      = read_block fp METADATA_INDICES ?n (s\<lparr>fin := meta_line # atom_lines @ rest\<rparr>)"
    using assms(1-4) by (rule body_count)
  also have "\<dots> = Continue ((s\<lparr>fin := meta_line # atom_lines @ rest\<rparr>)
       \<lparr>fin := drop (nat ?n) (atom_lines @ rest),
         fout := fout (s\<lparr>fin := meta_line # atom_lines @ rest\<rparr>) @ block_text ?n
                 (make_header (selected (split_ws (strip meta_line))))
                 (map rstrip_nl (take (nat ?n) (atom_lines @ rest))),
         block_count := block_count (s\<lparr>fin := meta_line # atom_lines @ rest\<rparr>) + 1\<rparr>)"
    using assms(1,5,6) by (intro read_block_emit) auto
  finally show ?thesis by simp
qed

text \<open>
  C3, as amended.  In the scanning state, a line that is not blank and that \<open>int\<close>
  rejects is logged with a warning, nothing is written, and the loop goes on with the
  rest of the input; a valid block right after that line is written and counted.
\<close>

theorem malformed_count_line:
  assumes "io_budget s = None"
    and "fin s = first # rest"
    and "strip first \<noteq> []" and "py_int (strip first) = None"
  shows "level_of (Expected_integer (strip first) fp) = WARNING
       \<and> body fp METADATA_INDICES s
           = Continue (s\<lparr>fin := rest, logged := logged s @ [Expected_integer (strip first) fp]\<rparr>)
       \<and> (\<forall>count_line meta_line atom_lines rest'.
             rest = count_line # meta_line # atom_lines @ rest'
             \<and> strip count_line \<noteq> []
             \<and> py_int (strip count_line) = Some (int (length atom_lines))
             \<and> 35 \<le> length (split_ws (strip meta_line))
             \<and> [] \<notin> set atom_lines
           \<longrightarrow> loop fp METADATA_INDICES s
               = loop fp METADATA_INDICES
                   (s\<lparr>fin := rest',
                      fout := fout s @ block_text (int (length atom_lines))
                                (make_header (selected (split_ws (strip meta_line))))
                                (map rstrip_nl atom_lines),
                      logged := logged s @ [Expected_integer (strip first) fp],
                      block_count := block_count s + 1\<rparr>))"
proof (intro conjI allI impI)
  show "level_of (Expected_integer (strip first) fp) = WARNING" by simp
next
  show b: "body fp METADATA_INDICES s
      = Continue (s\<lparr>fin := rest, logged := logged s @ [Expected_integer (strip first) fp]\<rparr>)"
    using assms by (rule body_bad_count)
  fix count_line meta_line atom_lines rest'
  assume a: "rest = count_line # meta_line # atom_lines @ rest'
             \<and> strip count_line \<noteq> []
             \<and> py_int (strip count_line) = Some (int (length atom_lines))
             \<and> 35 \<le> length (split_ws (strip meta_line))
             \<and> [] \<notin> set atom_lines"
  let ?s1 = "s\<lparr>fin := rest, logged := logged s @ [Expected_integer (strip first) fp]\<rparr>"
  have "body fp METADATA_INDICES ?s1
     = Continue (?s1\<lparr>fin := rest',
                   fout := fout ?s1 @ block_text (int (length atom_lines))
                              (make_header (selected (split_ws (strip meta_line))))
                              (map rstrip_nl atom_lines),
                   block_count := block_count ?s1 + 1\<rparr>)"
    using assms(1) a by (intro body_valid_block) auto
  then have e2: "loop fp METADATA_INDICES ?s1
     = loop fp METADATA_INDICES (?s1\<lparr>fin := rest',
                   fout := fout ?s1 @ block_text (int (length atom_lines))
                              (make_header (selected (split_ws (strip meta_line))))
                              (map rstrip_nl atom_lines),
                   block_count := block_count ?s1 + 1\<rparr>)"
    by (rule loop_Continue)
  have e3: "?s1\<lparr>fin := rest',
                   fout := fout ?s1 @ block_text (int (length atom_lines))
                              (make_header (selected (split_ws (strip meta_line))))
                              (map rstrip_nl atom_lines),
                   block_count := block_count ?s1 + 1\<rparr>
      = s\<lparr>fin := rest',
             fout := fout s @ block_text (int (length atom_lines))
                       (make_header (selected (split_ws (strip meta_line))))
                       (map rstrip_nl atom_lines),
             logged := logged s @ [Expected_integer (strip first) fp],
             block_count := block_count s + 1\<rparr>"
    by (rule state.equality) simp_all
  have "loop fp METADATA_INDICES s = loop fp METADATA_INDICES ?s1"
    using b by (rule loop_Continue)
  also note e2
  also note e3
  finally show "loop fp METADATA_INDICES s
      = loop fp METADATA_INDICES
          (s\<lparr>fin := rest',
             fout := fout s @ block_text (int (length atom_lines))
                       (make_header (selected (split_ws (strip meta_line))))
                       (map rstrip_nl atom_lines),
             logged := logged s @ [Expected_integer (strip first) fp],
             block_count := block_count s + 1\<rparr>)" .
qed

text \<open>
  C4.  When the input ends right after a count line, or when fewer than \<open>n\<close> lines
  follow the metadata line, the loop returns normally (no exception), the output and
  the number of blocks written are what they were before this block, and one warning
  was logged.
\<close>

theorem premature_end_of_stream:
  assumes "io_budget s = None"
    and "strip first \<noteq> []" and "py_int (strip first) = Some n"
    and "fin s = [first]
         \<or> (\<exists>meta_line rest. fin s = first # meta_line # rest \<and> length rest < nat n)"
  shows "\<exists>s' w. loop fp METADATA_INDICES s = Inr s'
              \<and> fout s' = fout s \<and> block_count s' = block_count s
              \<and> logged s' = logged s @ [w] \<and> level_of w = WARNING"
  using assms(4)
proof (elim disjE exE conjE)
  assume f: "fin s = [first]"
  have "body fp METADATA_INDICES s = read_block fp METADATA_INDICES n (s\<lparr>fin := []\<rparr>)"
    using assms(1) f assms(2,3) by (rule body_count)
  also have "\<dots> = Break (logger (EOF_reading_metadata fp) (s\<lparr>fin := []\<rparr>))"
    using assms(1) by (simp add: read_block_def readline_None_Nil)
  finally have "loop fp METADATA_INDICES s = Inr (logger (EOF_reading_metadata fp) (s\<lparr>fin := []\<rparr>))"
    by (rule loop_Break)
  then show ?thesis by (simp add: logger_def)
next
  fix meta_line rest
  assume f: "fin s = first # meta_line # rest" and short: "length rest < nat n"
  let ?s1 = "s\<lparr>fin := meta_line # rest\<rparr>"
  have b: "body fp METADATA_INDICES s = read_block fp METADATA_INDICES n ?s1"
    using assms(1) f assms(2,3) by (rule body_count)
  show ?thesis
  proof (cases "meta_line = []")
    case True
    have "read_block fp METADATA_INDICES n ?s1
        = Break (logger (EOF_reading_metadata fp) (s\<lparr>fin := rest\<rparr>))"
      using assms(1) True by (simp add: read_block_def readline_None_Cons)
    with b have "loop fp METADATA_INDICES s = Inr (logger (EOF_reading_metadata fp) (s\<lparr>fin := rest\<rparr>))"
      by (intro loop_Break) simp
    then show ?thesis by (simp add: logger_def)
  next
    case ne: False
    show ?thesis
    proof (cases "length (split_ws (strip meta_line)) < 35")
      case True
      let ?w = "Metadata_too_short (length (split_ws (strip meta_line))) 35 fp"
      let ?s2 = "s\<lparr>fin := [], logged := logged s @ [?w]\<rparr>"
      have "read_block fp METADATA_INDICES n ?s1
          = Continue (?s1\<lparr>fin := drop (nat n) rest, logged := logged ?s1 @ [?w]\<rparr>)"
        using assms(1) True ne by (intro read_block_short) auto
      with b short have "body fp METADATA_INDICES s = Continue ?s2" by simp
      then have "loop fp METADATA_INDICES s = loop fp METADATA_INDICES ?s2"
        by (rule loop_Continue)
      also have "\<dots> = Inr ?s2"
        using assms(1) by (intro loop_Break body_eof) auto
      finally show ?thesis by simp
    next
      case False
      then have sel: "all_some (map (py_index (split_ws (strip meta_line))) METADATA_INDICES)
          = Some (selected (split_ws (strip meta_line)))"
        by (intro selected_tokens) simp
      from short assms(1) obtain acc' r where
        ra: "read_atoms fp n (nat n) [] (s\<lparr>fin := rest\<rparr>)
           = Inr (False, acc', (s\<lparr>fin := rest\<rparr>)\<lparr>fin := r,
                 logged := logged (s\<lparr>fin := rest\<rparr>)
                    @ [EOF_reading_atoms n fp (block_count (s\<lparr>fin := rest\<rparr>))]\<rparr>)"
        using read_atoms_None_eof[of "s\<lparr>fin := rest\<rparr>" "nat n" fp n "[]"] by auto
      have "read_block fp METADATA_INDICES n ?s1
          = Break (s\<lparr>fin := r, logged := logged s @ [EOF_reading_atoms n fp (block_count s)]\<rparr>)"
        using assms(1) False ne sel ra
        by (simp add: read_block_def readline_None_Cons Let_def)
      with b have "loop fp METADATA_INDICES s
          = Inr (s\<lparr>fin := r, logged := logged s @ [EOF_reading_atoms n fp (block_count s)]\<rparr>)"
        by (intro loop_Break) simp
      then show ?thesis by simp
    qed
  qed
qed

text \<open>C3, witness: the line \<open>abc\<close> before a block of one atom.\<close>

theorem malformed_count_line_witness:
  "py_int (strip ''abc\<newline>'') = None
   \<and> body (''d'', ''f'') METADATA_INDICES
        (sample_state [''abc\<newline>'', ''1\<newline>'', sample_meta 35, ''H 0 0 0\<newline>''])
     = Continue ((sample_state [''abc\<newline>'', ''1\<newline>'', sample_meta 35, ''H 0 0 0\<newline>''])
          \<lparr>fin := [''1\<newline>'', sample_meta 35, ''H 0 0 0\<newline>''],
            logged := [] @ [Expected_integer (strip ''abc\<newline>'') (''d'', ''f'')]\<rparr>)
   \<and> loop (''d'', ''f'') METADATA_INDICES
        (sample_state [''abc\<newline>'', ''1\<newline>'', sample_meta 35, ''H 0 0 0\<newline>''])
     = loop (''d'', ''f'') METADATA_INDICES
        ((sample_state [''abc\<newline>'', ''1\<newline>'', sample_meta 35, ''H 0 0 0\<newline>''])
          \<lparr>fin := [],
            fout := [] @ block_text (int (length [''H 0 0 0\<newline>'']))
                      (make_header (selected (split_ws (strip (sample_meta 35)))))
                      (map rstrip_nl [''H 0 0 0\<newline>'']),
            logged := [] @ [Expected_integer (strip ''abc\<newline>'') (''d'', ''f'')],
            block_count := 0 + 1\<rparr>)"
proof -
  let ?r = "[''1\<newline>'', sample_meta 35, ''H 0 0 0\<newline>'']"
  let ?s = "sample_state [''abc\<newline>'', ''1\<newline>'', sample_meta 35, ''H 0 0 0\<newline>'']"
  have h1: "io_budget ?s = None" by (simp add: sample_state_def)
  have h2: "fin ?s = ''abc\<newline>'' # ?r" by (simp add: sample_state_def)
  have h3: "strip ''abc\<newline>'' \<noteq> []" by code_simp
  have h4: "py_int (strip ''abc\<newline>'') = None" by code_simp
  have f: "fout ?s = []" "logged ?s = []" "block_count ?s = 0" by (simp_all add: sample_state_def)
  have v: "?r = ''1\<newline>'' # sample_meta 35 # [''H 0 0 0\<newline>''] @ []
             \<and> strip ''1\<newline>'' \<noteq> []
             \<and> py_int (strip ''1\<newline>'') = Some (int (length [''H 0 0 0\<newline>'']))
             \<and> 35 \<le> length (split_ws (strip (sample_meta 35)))
             \<and> [] \<notin> set [''H 0 0 0\<newline>'']"
    by code_simp
  note t = malformed_count_line[OF h1 h2 h3 h4, of "(''d'', ''f'')"]
  from t have A: "body (''d'', ''f'') METADATA_INDICES ?s
     = Continue (?s\<lparr>fin := ?r, logged := logged ?s @ [Expected_integer (strip ''abc\<newline>'') (''d'', ''f'')]\<rparr>)"
    by blast
  from t v have B: "loop (''d'', ''f'') METADATA_INDICES ?s
     = loop (''d'', ''f'') METADATA_INDICES
        (?s\<lparr>fin := [],
            fout := fout ?s @ block_text (int (length [''H 0 0 0\<newline>'']))
                      (make_header (selected (split_ws (strip (sample_meta 35)))))
                      (map rstrip_nl [''H 0 0 0\<newline>'']),
            logged := logged ?s @ [Expected_integer (strip ''abc\<newline>'') (''d'', ''f'')],
            block_count := block_count ?s + 1\<rparr>)"
    by blast
  from h4 A B show ?thesis unfolding f by (intro conjI)
qed

text \<open>C4, witness: the input ends after the count line, and after one of three atom lines.\<close>

theorem premature_end_of_stream_witness:
  "(\<exists>s' w. loop (''d'', ''f'') METADATA_INDICES
              ((sample_state [''3\<newline>''])\<lparr>fout := ''earlier blocks\<newline>'', block_count := 4\<rparr>) = Inr s'
           \<and> fout s' = ''earlier blocks\<newline>'' \<and> block_count s' = 4
           \<and> logged s' = [] @ [w] \<and> level_of w = WARNING)
   \<and> (\<exists>s' w. loop (''d'', ''f'') METADATA_INDICES
              ((sample_state [''3\<newline>'', sample_meta 35, ''H 0 0 0\<newline>''])
                 \<lparr>fout := ''earlier blocks\<newline>'', block_count := 4\<rparr>) = Inr s'
           \<and> fout s' = ''earlier blocks\<newline>'' \<and> block_count s' = 4
           \<and> logged s' = [] @ [w] \<and> level_of w = WARNING)"
proof -
  let ?a = "(sample_state [''3\<newline>''])\<lparr>fout := ''earlier blocks\<newline>'', block_count := 4\<rparr>"
  let ?b = "(sample_state [''3\<newline>'', sample_meta 35, ''H 0 0 0\<newline>''])
                 \<lparr>fout := ''earlier blocks\<newline>'', block_count := 4\<rparr>"
  have c1: "strip ''3\<newline>'' \<noteq> []" by code_simp
  have c2: "py_int (strip ''3\<newline>'') = Some 3" by code_simp
  have a1: "io_budget ?a = None" by (simp add: sample_state_def)
  have a2: "fin ?a = [''3\<newline>'']
         \<or> (\<exists>meta_line rest. fin ?a = ''3\<newline>'' # meta_line # rest \<and> length rest < nat 3)"
    by (simp add: sample_state_def)
  have b1: "io_budget ?b = None" by (simp add: sample_state_def)
  have "fin ?b = ''3\<newline>'' # sample_meta 35 # [''H 0 0 0\<newline>'']
          \<and> length [''H 0 0 0\<newline>''] < nat 3"
    by (simp add: sample_state_def)
  then have b2: "fin ?b = [''3\<newline>'']
         \<or> (\<exists>meta_line rest. fin ?b = ''3\<newline>'' # meta_line # rest \<and> length rest < nat 3)"
    by blast
  have fa: "fout ?a = ''earlier blocks\<newline>''" "block_count ?a = 4" "logged ?a = []"
    by (simp_all add: sample_state_def)
  have fb: "fout ?b = ''earlier blocks\<newline>''" "block_count ?b = 4" "logged ?b = []"
    by (simp_all add: sample_state_def)
  from premature_end_of_stream[OF a1 c1 c2 a2, of "(''d'', ''f'')"]
       premature_end_of_stream[OF b1 c1 c2 b2, of "(''d'', ''f'')"]
  show ?thesis unfolding fa fb by (rule conjI)
qed

section \<open>What a pass through the body writes\<close>

lemma io_step_Inr:
  "io_step s = Inr s' \<Longrightarrow>
   fin s' = fin s \<and> fout s' = fout s \<and> logged s' = logged s \<and> block_count s' = block_count s"
  by (auto simp: io_step_def split: option.splits nat.splits)

lemma readline_Inr:
  "readline s = Inr (l, s') \<Longrightarrow>
   fout s' = fout s \<and> logged s' = logged s \<and> block_count s' = block_count s
   \<and> (if fin s = [] then l = [] \<and> fin s' = [] else fin s = l # fin s')"
  by (auto simp: readline_def split: sum.splits list.splits dest!: io_step_Inr)

lemma write_out_Inr:
  "write_out x s = Inr s' \<Longrightarrow>
   fout s' = fout s @ x \<and> fin s' = fin s \<and> logged s' = logged s \<and> block_count s' = block_count s"
  by (auto simp: write_out_def split: sum.splits dest!: io_step_Inr)

lemma write_lines_Inr:
  "write_lines als s = Inr s' \<Longrightarrow>
   fout s' = fout s @ concat (map (\<lambda>l. l @ ''\<newline>'') als)
   \<and> fin s' = fin s \<and> logged s' = logged s \<and> block_count s' = block_count s"
proof (induction als arbitrary: s)
  case Nil
  then show ?case by simp
next
  case (Cons al als)
  from Cons.prems obtain s1 where w: "write_out (al @ ''\<newline>'') s = Inr s1"
    and r: "write_lines als s1 = Inr s'"
    by (auto split: sum.splits)
  from write_out_Inr[OF w] Cons.IH[OF r] show ?case by simp
qed

lemma read_atoms_True:
  "read_atoms fp n k acc s = Inr (True, ls, s') \<Longrightarrow>
   k \<le> length (fin s) \<and> ls = acc @ map rstrip_nl (take k (fin s)) \<and> fin s' = drop k (fin s)
   \<and> fout s' = fout s \<and> logged s' = logged s \<and> block_count s' = block_count s"
proof (induction k arbitrary: s acc)
  case 0
  then show ?case by simp
next
  case (Suc k)
  from Suc.prems obtain line s1 where r: "readline s = Inr (line, s1)" and ne: "line \<noteq> []"
    and rest: "read_atoms fp n k (acc @ [rstrip_nl line]) s1 = Inr (True, ls, s')"
    by (auto split: sum.splits prod.splits if_splits)
  from readline_Inr[OF r] ne have f: "fin s = line # fin s1"
    and same: "fout s1 = fout s" "logged s1 = logged s" "block_count s1 = block_count s"
    by (auto split: if_splits)
  from Suc.IH[OF rest] f same show ?case by simp
qed

lemma skip_lines_Inr:
  "skip_lines k s = Inr s' \<Longrightarrow> fout s' = fout s \<and> block_count s' = block_count s"
proof (induction k arbitrary: s)
  case 0
  then show ?case by simp
next
  case (Suc k)
  from Suc.prems obtain l s1 where r: "readline s = Inr (l, s1)" and k: "skip_lines k s1 = Inr s'"
    by (auto split: sum.splits prod.splits)
  from readline_Inr[OF r] Suc.IH[OF k] show ?case by simp
qed

lemma write_block_Continue:
  "write_block n h als s = Continue s' \<Longrightarrow>
   fout s' = fout s @ block_text n h als \<and> block_count s' = block_count s + 1
   \<and> fin s' = fin s \<and> logged s' = logged s"
proof -
  assume a: "write_block n h als s = Continue s'"
  then obtain s1 s2 s3 where w1: "write_out (str_int n @ ''\<newline>'') s = Inr s1"
    and w2: "write_out (h @ ''\<newline>'') s1 = Inr s2"
    and w3: "write_lines als s2 = Inr s3"
    and e: "s' = s3\<lparr>block_count := block_count s3 + 1\<rparr>"
    unfolding write_block_def by (auto split: sum.splits prod.splits)
  from write_out_Inr[OF w1] write_out_Inr[OF w2] write_lines_Inr[OF w3] e
  show ?thesis by (simp add: block_text_def)
qed

lemma read_block_emitted:
  assumes "read_block fp idx n s = Continue s'" and "block_count s' \<noteq> block_count s"
  shows "\<exists>meta_line rest meta_values.
           fin s = meta_line # rest
         \<and> all_some (map (py_index (split_ws (strip meta_line))) idx) = Some meta_values
         \<and> nat n \<le> length rest
         \<and> fout s' = fout s @ block_text n (make_header meta_values)
                                  (map rstrip_nl (take (nat n) rest))
         \<and> fin s' = drop (nat n) rest
         \<and> block_count s' = block_count s + 1"
proof -
  from assms(1) obtain meta_line s1 where r: "readline s = Inr (meta_line, s1)"
    and ne: "meta_line \<noteq> []"
    unfolding read_block_def by (auto split: sum.splits prod.splits if_splits)
  from readline_Inr[OF r] ne have f: "fin s = meta_line # fin s1"
    and same: "fout s1 = fout s" "block_count s1 = block_count s"
    by (auto split: if_splits)
  let ?toks = "split_ws (strip meta_line)"
  from assms(1) r ne obtain m where m: "py_max idx = Some m"
    unfolding read_block_def Let_def by (auto split: option.splits)
  have not_short: "\<not> m \<ge> int (length ?toks)"
  proof
    assume "m \<ge> int (length ?toks)"
    with assms(1) r ne m obtain s2 where
      "skip_lines (nat n) (logger (Metadata_too_short (length ?toks) (m + 1) fp) s1) = Inr s2"
      and "s' = s2"
      unfolding read_block_def Let_def by (auto split: sum.splits prod.splits)
    with skip_lines_Inr[of "nat n" _ s2] same assms(2) show False
      by (auto simp: logger_def)
  qed
  have "all_some (map (py_index ?toks) idx) \<noteq> None"
  proof
    assume "all_some (map (py_index ?toks) idx) = None"
    with assms(1) r ne m not_short obtain s2 where
      "skip_lines (nat n) (logger Failed_to_extract s1) = Inr s2" and "s' = s2"
      unfolding read_block_def Let_def by (auto split: sum.splits prod.splits)
    with skip_lines_Inr[of "nat n" _ s2] same assms(2) show False
      by (auto simp: logger_def)
  qed
  then obtain vals where v: "all_some (map (py_index ?toks) idx) = Some vals" by auto
  from assms(1) r ne m not_short v obtain atom_lines s2 where
    ra: "read_atoms fp n (nat n) [] s1 = Inr (True, atom_lines, s2)"
    and wb: "write_block n (make_header vals) atom_lines s2 = Continue s'"
    unfolding read_block_def Let_def
    by (auto split: sum.splits prod.splits if_splits)
  from read_atoms_True[OF ra] write_block_Continue[OF wb] f same v
  show ?thesis by simp
qed

lemma body_emitted:
  assumes "body fp idx s = Continue s'" and "block_count s' \<noteq> block_count s"
  shows "\<exists>first meta_line rest n meta_values.
           fin s = first # meta_line # rest
         \<and> py_int (strip first) = Some n
         \<and> all_some (map (py_index (split_ws (strip meta_line))) idx) = Some meta_values
         \<and> nat n \<le> length rest
         \<and> fout s' = fout s @ block_text n (make_header meta_values)
                                  (map rstrip_nl (take (nat n) rest))
         \<and> fin s' = drop (nat n) rest
         \<and> block_count s' = block_count s + 1"
proof -
  from assms(1) obtain first s1 where r: "readline s = Inr (first, s1)" and ne: "first \<noteq> []"
    unfolding body_def by (auto split: sum.splits prod.splits if_splits)
  from readline_Inr[OF r] ne have f: "fin s = first # fin s1"
    and same: "fout s1 = fout s" "logged s1 = logged s" "block_count s1 = block_count s"
    by (auto split: if_splits)
  from assms r ne same obtain n where p: "py_int (strip first) = Some n"
    and rb: "read_block fp idx n s1 = Continue s'"
    unfolding body_def Let_def
    by (auto split: if_splits option.splits simp: logger_def)
  from assms(2) same have "block_count s' \<noteq> block_count s1" by simp
  from read_block_emitted[OF rb this] f same p show ?thesis by auto
qed

lemma readlines_acc_line:
  "l \<in> set (readlines_acc cur c) \<Longrightarrow> CHR 0x0A \<notin> set cur \<Longrightarrow>
   l \<noteq> [] \<and> CHR 0x0A \<notin> set (butlast l)"
proof (induction c arbitrary: cur)
  case Nil
  then show ?case by (auto split: if_splits dest: in_set_butlastD)
next
  case (Cons x c)
  show ?case
  proof (cases "x = CHR 0x0A")
    case True
    with Cons.prems have "l = cur @ [x] \<or> l \<in> set (readlines_acc [] c)" by auto
    then show ?thesis
    proof
      assume "l = cur @ [x]"
      with Cons.prems(2) show ?thesis by simp
    next
      assume "l \<in> set (readlines_acc [] c)"
      then show ?thesis by (rule Cons.IH) simp
    qed
  next
    case False
    with Cons.prems have mem: "l \<in> set (readlines_acc (cur @ [x]) c)" by auto
    from False Cons.prems(2) have "CHR 0x0A \<notin> set (cur @ [x])" by simp
    from Cons.IH[OF mem this] show ?thesis .
  qed
qed

lemma readlines_line:
  "l \<in> set (readlines c) \<Longrightarrow> l \<noteq> [] \<and> CHR 0x0A \<notin> set (butlast l)"
  using readlines_acc_line[of l "[]" c] by (simp add: readlines_def)

lemma dropWhile_absent: "x \<notin> set zs \<Longrightarrow> dropWhile (\<lambda>c. c = x) zs = zs"
  by (cases zs) auto

lemma rstrip_nl_line:
  assumes "l \<noteq> []" and "CHR 0x0A \<notin> set (butlast l)"
  shows "CHR 0x0A \<notin> set (rstrip_nl l) \<and> (l = rstrip_nl l @ ''\<newline>'' \<or> l = rstrip_nl l)"
proof -
  from assms(1) obtain ys y where l: "l = ys @ [y]" by (cases l rule: rev_cases) auto
  with assms(2) have ys: "CHR 0x0A \<notin> set ys" by simp
  show ?thesis
  proof (cases "y = CHR 0x0A")
    case True
    with l ys have "rstrip_nl l = ys" by (simp add: rstrip_nl_def dropWhile_absent)
    with l ys True show ?thesis by simp
  next
    case False
    with l have "rstrip_nl l = l" by (simp add: rstrip_nl_def)
    with l ys False show ?thesis by simp
  qed
qed

lemma isspace_newline [simp]: "isspace CHR 0x0A"
  by (simp add: isspace_def)

lemma split_ws_acc_tokens:
  "t \<in> set (split_ws_acc cur s) \<Longrightarrow> \<forall>c\<in>set cur. \<not> isspace c \<Longrightarrow> \<forall>c\<in>set t. \<not> isspace c"
proof (induction s arbitrary: cur)
  case Nil
  then show ?case by (auto split: if_splits)
next
  case (Cons x s)
  show ?case
  proof (cases "isspace x")
    case True
    with Cons.prems(1) have "t = cur \<or> t \<in> set (split_ws_acc [] s)" by (auto split: if_splits)
    then show ?thesis
    proof
      assume "t = cur" with Cons.prems(2) show ?thesis by simp
    next
      assume "t \<in> set (split_ws_acc [] s)"
      then show ?thesis by (rule Cons.IH) simp
    qed
  next
    case False
    with Cons.prems(1) have mem: "t \<in> set (split_ws_acc (cur @ [x]) s)" by simp
    from False Cons.prems(2) have "\<forall>c\<in>set (cur @ [x]). \<not> isspace c" by simp
    from Cons.IH[OF mem this] show ?thesis .
  qed
qed

lemma split_ws_tokens: "t \<in> set (split_ws s) \<Longrightarrow> c \<in> set t \<Longrightarrow> \<not> isspace c"
  unfolding split_ws_def using split_ws_acc_tokens[of t "[]" s] by auto

lemma all_some_Some: "all_some xs = Some vs \<Longrightarrow> xs = map Some vs"
proof (induction xs arbitrary: vs)
  case Nil
  then show ?case by simp
next
  case (Cons x xs)
  then show ?case by (cases x) auto
qed

lemma py_index_mem: "py_index xs i = Some v \<Longrightarrow> v \<in> set xs"
  by (auto simp: py_index_def Let_def split: if_splits)

lemma selected_values_mem:
  assumes "all_some (map (py_index toks) idx) = Some vals" and "v \<in> set vals"
  shows "v \<in> set toks"
proof -
  from all_some_Some[OF assms(1)] have "map (py_index toks) idx = map Some vals" .
  with assms(2) have "Some v \<in> set (map (py_index toks) idx)" by simp
  then obtain i where "py_index toks i = Some v" by auto
  then show ?thesis by (rule py_index_mem)
qed

lemma join_no_char:
  "x \<notin> set sep \<Longrightarrow> \<forall>p\<in>set ps. x \<notin> set p \<Longrightarrow> x \<notin> set (join sep ps)"
  by (induction sep ps rule: join.induct) auto

lemma header_labels_no_newline: "l \<in> set header_labels \<Longrightarrow> CHR 0x0A \<notin> set l"
  by (auto simp: header_labels_def)

lemma make_header_one_line:
  assumes "\<forall>v\<in>set vals. CHR 0x0A \<notin> set v"
  shows "CHR 0x0A \<notin> set (make_header vals)"
proof (cases "length vals < 10")
  case True
  have j: "\<And>f. \<forall>v\<in>set vals. CHR 0x0A \<notin> set (f v)
              \<Longrightarrow> CHR 0x0A \<notin> set (join '' '' (map f vals))"
    by (intro join_no_char) auto
  from True assms show ?thesis
    by (simp add: make_header_def format_header_def properties_marker_def j)
next
  case False
  have "CHR 0x0A \<notin> set (concat (map (\<lambda>(l, v). l @ v) (zip header_labels vals)))"
  proof
    assume "CHR 0x0A \<in> set (concat (map (\<lambda>(l, v). l @ v) (zip header_labels vals)))"
    then obtain l v where z: "(l, v) \<in> set (zip header_labels vals)"
      and c: "CHR 0x0A \<in> set l \<or> CHR 0x0A \<in> set v"
      by auto
    from z have "l \<in> set header_labels" "v \<in> set vals"
      by (auto dest: set_zip_leftD set_zip_rightD)
    with c assms header_labels_no_newline[of l] show False by auto
  qed
  with False show ?thesis
    by (simp add: make_header_def format_header_def properties_marker_def)
qed

lemma str_nat_digits: "c \<in> set (str_nat n) \<Longrightarrow> isdigit c"
proof (induction n rule: str_nat.induct)
  case (1 n)
  show ?case
  proof (cases "n < 10")
    case True
    with "1.prems" have "c = char_of (48 + n)" by (subst (asm) str_nat.simps) simp
    with True show ?thesis by (simp add: isdigit_def)
  next
    case False
    with "1.prems" have "c \<in> set (str_nat (n div 10)) \<or> c = char_of (48 + n mod 10)"
      by (subst (asm) str_nat.simps) auto
    then show ?thesis
    proof
      assume "c \<in> set (str_nat (n div 10))"
      with False show ?thesis by (intro "1.IH") auto
    next
      assume "c = char_of (48 + n mod 10)"
      moreover have "n mod 10 < 10" by simp
      ultimately show ?thesis by (simp add: isdigit_def)
    qed
  qed
qed

lemma str_int_one_line: "CHR 0x0A \<notin> set (str_int n)"
proof
  assume "CHR 0x0A \<in> set (str_int n)"
  then have "isdigit CHR 0x0A"
    by (auto simp: str_int_def split: if_splits dest: str_nat_digits)
  then show False by (simp add: isdigit_def)
qed

text \<open>
  C1, as amended.  Whenever a pass through the body writes a block (the count of blocks
  goes up), the output grows by exactly: the count \<open>n\<close> from the count line, on a
  line of its own; one header line built from the selected tokens; then the next
  \<open>nat n\<close> lines of the input, that is \<open>n\<close> lines when \<open>n \<ge> 0\<close> and none when
  \<open>n\<close> is negative, each without its terminator and followed by a line terminator.
\<close>

theorem emitted_block:
  assumes "fin s = readlines content"
    and "body fp idx s = Continue s'"
    and "block_count s' \<noteq> block_count s"
  shows "\<exists>first meta_line rest n meta_values.
           fin s = first # meta_line # rest
         \<and> py_int (strip first) = Some n
         \<and> all_some (map (py_index (split_ws (strip meta_line))) idx) = Some meta_values
         \<and> fout s' = fout s @ block_text n (make_header meta_values)
                                  (map rstrip_nl (take (nat n) rest))
         \<and> CHR 0x0A \<notin> set (str_int n)
         \<and> CHR 0x0A \<notin> set (make_header meta_values)
         \<and> length (map rstrip_nl (take (nat n) rest)) = nat n
         \<and> (\<forall>l\<in>set (take (nat n) rest).
               CHR 0x0A \<notin> set (rstrip_nl l) \<and> (l = rstrip_nl l @ ''\<newline>'' \<or> l = rstrip_nl l))
         \<and> fin s' = drop (nat n) rest
         \<and> block_count s' = block_count s + 1"
proof -
  from body_emitted[OF assms(2,3)] obtain first meta_line rest n meta_values where
    f: "fin s = first # meta_line # rest"
    and p: "py_int (strip first) = Some n"
    and v: "all_some (map (py_index (split_ws (strip meta_line))) idx) = Some meta_values"
    and len: "nat n \<le> length rest"
    and out: "fout s' = fout s @ block_text n (make_header meta_values)
                                  (map rstrip_nl (take (nat n) rest))"
    and rest: "fin s' = drop (nat n) rest"
    and cnt: "block_count s' = block_count s + 1"
    by blast
  have vals: "\<forall>v\<in>set meta_values. CHR 0x0A \<notin> set v"
  proof
    fix x assume "x \<in> set meta_values"
    with v have "x \<in> set (split_ws (strip meta_line))" by (rule selected_values_mem)
    then show "CHR 0x0A \<notin> set x" using split_ws_tokens[of x _ "CHR 0x0A"] by auto
  qed
  have lines: "\<forall>l\<in>set (take (nat n) rest).
      CHR 0x0A \<notin> set (rstrip_nl l) \<and> (l = rstrip_nl l @ ''\<newline>'' \<or> l = rstrip_nl l)"
  proof
    fix l assume "l \<in> set (take (nat n) rest)"
    then have "l \<in> set (fin s)" using f by (auto dest: in_set_takeD)
    with assms(1) have "l \<noteq> [] \<and> CHR 0x0A \<notin> set (butlast l)"
      by (auto dest: readlines_line)
    then show "CHR 0x0A \<notin> set (rstrip_nl l) \<and> (l = rstrip_nl l @ ''\<newline>'' \<or> l = rstrip_nl l)"
      by (intro rstrip_nl_line) auto
  qed
  from f p v out rest cnt len lines make_header_one_line[OF vals] str_int_one_line[of n]
  show ?thesis by (intro exI[of _ first] exI[of _ meta_line] exI[of _ rest] exI[of _ n]
                         exI[of _ meta_values]) simp
qed

text \<open>C1, witness: a block of two atoms followed by another count line.\<close>

theorem emitted_block_witness:
  "body (''d'', ''f'') METADATA_INDICES (sample_state (readlines sample_input))
     = Continue sample_after
   \<and> (\<exists>first meta_line rest n meta_values.
           fin (sample_state (readlines sample_input)) = first # meta_line # rest
         \<and> py_int (strip first) = Some n
         \<and> all_some (map (py_index (split_ws (strip meta_line))) METADATA_INDICES)
             = Some meta_values
         \<and> fout sample_after
             = fout (sample_state (readlines sample_input))
               @ block_text n (make_header meta_values) (map rstrip_nl (take (nat n) rest))
         \<and> CHR 0x0A \<notin> set (str_int n)
         \<and> CHR 0x0A \<notin> set (make_header meta_values)
         \<and> length (map rstrip_nl (take (nat n) rest)) = nat n
         \<and> (\<forall>l\<in>set (take (nat n) rest).
               CHR 0x0A \<notin> set (rstrip_nl l) \<and> (l = rstrip_nl l @ ''\<newline>'' \<or> l = rstrip_nl l))
         \<and> fin sample_after = drop (nat n) rest
         \<and> block_count sample_after = block_count (sample_state (readlines sample_input)) + 1)"
proof (rule conjI)
  have h1: "fin (sample_state (readlines sample_input)) = readlines sample_input"
    by (simp add: sample_state_def)
  show h2: "body (''d'', ''f'') METADATA_INDICES (sample_state (readlines sample_input))
      = Continue sample_after"
    by code_simp
  have h3: "block_count sample_after \<noteq> block_count (sample_state (readlines sample_input))"
    by (simp add: sample_state_def sample_after_def)
  show "\<exists>first meta_line rest n meta_values.
           fin (sample_state (readlines sample_input)) = first # meta_line # rest
         \<and> py_int (strip first) = Some n
         \<and> all_some (map (py_index (split_ws (strip meta_line))) METADATA_INDICES)
             = Some meta_values
         \<and> fout sample_after
             = fout (sample_state (readlines sample_input))
               @ block_text n (make_header meta_values) (map rstrip_nl (take (nat n) rest))
         \<and> CHR 0x0A \<notin> set (str_int n)
         \<and> CHR 0x0A \<notin> set (make_header meta_values)
         \<and> length (map rstrip_nl (take (nat n) rest)) = nat n
         \<and> (\<forall>l\<in>set (take (nat n) rest).
               CHR 0x0A \<notin> set (rstrip_nl l) \<and> (l = rstrip_nl l @ ''\<newline>'' \<or> l = rstrip_nl l))
         \<and> fin sample_after = drop (nat n) rest
         \<and> block_count sample_after = block_count (sample_state (readlines sample_input)) + 1"
    by (rule emitted_block[OF h1 h2 h3])
qed

section \<open>Well-formed inputs\<close>

lemma block_lines_tuple: "block_lines (c, m, als) = c # m # als"
  by (simp add: block_lines_def)

lemma reformatted_tuple:
  "reformatted (c, m, als)
     = block_text (int (length als)) (make_header (selected (split_ws (strip m))))
                  (map rstrip_nl als)"
  by (simp add: reformatted_def)

lemma loop_well_formed:
  assumes "io_budget s = None"
    and "fin s = concat (map block_lines bs)"
    and "\<forall>b\<in>set bs. well_formed b"
  shows "loop fp METADATA_INDICES s
     = Inr (s\<lparr>fin := [], fout := fout s @ concat (map reformatted bs),
              block_count := block_count s + length bs\<rparr>)"
  using assms
proof (induction bs arbitrary: s)
  case Nil
  then have "loop fp METADATA_INDICES s = Inr s"
    by (intro loop_Break body_eof) auto
  moreover have "s\<lparr>fin := [], fout := fout s @ concat (map reformatted []),
              block_count := block_count s + length ([] :: block list)\<rparr> = s"
    using Nil by (intro state.equality) simp_all
  ultimately show ?case by simp
next
  case (Cons b bs)
  obtain c m als where b: "b = (c, m, als)" by (cases b)
  let ?s1 = "s\<lparr>fin := concat (map block_lines bs), fout := fout s @ reformatted b,
               block_count := block_count s + 1\<rparr>"
  from Cons.prems(3) b have wf: "strip c \<noteq> []" "py_int (strip c) = Some (int (length als))"
    "35 \<le> length (split_ws (strip m))" "[] \<notin> set als"
    by (simp_all add: well_formed_def)
  from Cons.prems(2) b have f: "fin s = c # m # als @ concat (map block_lines bs)"
    by (simp add: block_lines_tuple)
  have "body fp METADATA_INDICES s = Continue ?s1"
    using body_valid_block[OF Cons.prems(1) f wf, of fp] b by (simp add: reformatted_tuple)
  then have "loop fp METADATA_INDICES s = loop fp METADATA_INDICES ?s1"
    by (rule loop_Continue)
  also have "\<dots> = Inr (?s1\<lparr>fin := [], fout := fout ?s1 @ concat (map reformatted bs),
              block_count := block_count ?s1 + length bs\<rparr>)"
  proof (rule Cons.IH)
    show "io_budget ?s1 = None" using Cons.prems(1) by simp
    show "fin ?s1 = concat (map block_lines bs)" by simp
    show "\<forall>b\<in>set bs. well_formed b" using Cons.prems(3) by simp
  qed
  also have "?s1\<lparr>fin := [], fout := fout ?s1 @ concat (map reformatted bs),
              block_count := block_count ?s1 + length bs\<rparr>
     = s\<lparr>fin := [], fout := fout s @ concat (map reformatted (b # bs)),
              block_count := block_count s + length (b # bs)\<rparr>"
    by (intro state.equality) simp_all
  finally show ?case .
qed

lemma with_files_well_formed:
  assumes "\<forall>b\<in>set bs. well_formed b"
    and "map_of (files w) file_path = Some (Regular content)"
    and "readlines content = concat (map block_lines bs)"
    and "map_of (io_faults w) file_path = None"
    and "map_of (files w) out_path \<noteq> Some Directory"
  shows "with_files METADATA_INDICES file_path out_path w
     = Inr (w\<lparr>files := AList.update out_path (Regular (concat (map reformatted bs))) (files w),
              console := console w @ [Finished_file file_path (length bs) out_path]\<rparr>)"
proof -
  let ?s0 = "\<lparr>fin = [], fout = [], logged = console w, block_count = 0, io_budget = None\<rparr>"
  let ?s1 = "\<lparr>fin = readlines content, fout = [], logged = console w, block_count = 0,
              io_budget = None\<rparr>"
  let ?w1 = "w\<lparr>files := AList.update out_path (Regular []) (files w)\<rparr>"
  let ?s3 = "\<lparr>fin = [], fout = concat (map reformatted bs), logged = console w,
              block_count = length bs, io_budget = None\<rparr>"
  have r: "open_read file_path w ?s0 = Inr ?s1"
    using assms(2) by (simp add: open_read_def io_step_None)
  have wr: "open_write out_path w ?s1 = Inr (?w1, ?s1)"
    using assms(5) by (simp add: open_write_def io_step_None split: option.splits node.splits)
  have "loop file_path METADATA_INDICES ?s1
      = Inr (?s1\<lparr>fin := [], fout := fout ?s1 @ concat (map reformatted bs),
                 block_count := block_count ?s1 + length bs\<rparr>)"
    using assms(1,3) by (intro loop_well_formed) auto
  then have l: "loop file_path METADATA_INDICES ?s1 = Inr ?s3" by simp
  show ?thesis
    by (simp add: with_files_def assms(4) r wr l close_files_def logger_def io_step_None)
qed

text \<open>
  C5.  When the lines of the input file are exactly the lines of a list of well-formed
  blocks, and no I/O failure occurs, \<open>process_file\<close> writes one block for each block
  of the input: the output file holds the reformatted blocks in order, and the count
  reported at the end is the number of blocks of the input.
\<close>

theorem well_formed_input_block_count:
  assumes "\<forall>b\<in>set bs. well_formed b"
    and "map_of (files w) file_path = Some (Regular content)"
    and "readlines content = concat (map block_lines bs)"
    and "map_of (io_faults w) file_path = None"
    and "make_output_name file_path = Inr out_path"
    and "map_of (files w) out_path \<noteq> Some Directory"
  shows "process_file file_path None w
     = Inr (w\<lparr>files := AList.update out_path (Regular (concat (map reformatted bs))) (files w),
              console := console w @ [Processing_file file_path,
                                      Finished_file file_path (length bs) out_path]\<rparr>)"
proof -
  let ?w = "w\<lparr>console := console w @ [Processing_file file_path]\<rparr>"
  have "with_files METADATA_INDICES file_path out_path ?w
     = Inr (?w\<lparr>files := AList.update out_path (Regular (concat (map reformatted bs))) (files ?w),
              console := console ?w @ [Finished_file file_path (length bs) out_path]\<rparr>)"
    using assms by (intro with_files_well_formed) auto
  moreover from assms(5) have "fst out_path = fst file_path"
    by (auto simp: make_output_name_def with_name_def split: if_splits)
  ultimately show ?thesis
    using assms(5) by (simp add: process_file_def process_file_with_def)
qed

text \<open>C5, witness: a file of two blocks, the second one with no atoms.\<close>

theorem well_formed_input_block_count_witness:
  "process_file (''data'', ''mol.xyz'') None (sample_world (sample_block @ ''0\<newline>'' @ sample_meta 36))
     = Inr ((sample_world (sample_block @ ''0\<newline>'' @ sample_meta 36))
             \<lparr>files := AList.update (''data'', ''mol_reformat.xyz'')
                  (Regular (concat (map reformatted
                     [(''2\<newline>'', sample_meta 35, [''C 0 0 0\<newline>'', ''H 1 0 0\<newline>'']),
                      (''0\<newline>'', sample_meta 36, [])])))
                  (files (sample_world (sample_block @ ''0\<newline>'' @ sample_meta 36))),
               console := console (sample_world (sample_block @ ''0\<newline>'' @ sample_meta 36))
                  @ [Processing_file (''data'', ''mol.xyz''),
                     Finished_file (''data'', ''mol.xyz'')
                       (length [(''2\<newline>'', sample_meta 35, [''C 0 0 0\<newline>'', ''H 1 0 0\<newline>'']),
                                (''0\<newline>'', sample_meta 36, [])])
                       (''data'', ''mol_reformat.xyz'')]\<rparr>)"
proof -
  let ?c = "sample_block @ ''0\<newline>'' @ sample_meta 36"
  let ?bs = "[(''2\<newline>'', sample_meta 35, [''C 0 0 0\<newline>'', ''H 1 0 0\<newline>'']),
              (''0\<newline>'', sample_meta 36, [])]"
  have h1: "\<forall>b\<in>set ?bs. well_formed b" by code_simp
  have h2: "map_of (files (sample_world ?c)) (''data'', ''mol.xyz'') = Some (Regular ?c)"
    by (simp add: sample_world_def)
  have h3: "readlines ?c = concat (map block_lines ?bs)" by code_simp
  have h4: "map_of (io_faults (sample_world ?c)) (''data'', ''mol.xyz'') = None"
    by (simp add: sample_world_def)
  have h5: "make_output_name (''data'', ''mol.xyz'') = Inr (''data'', ''mol_reformat.xyz'')"
    by code_simp
  have h6: "map_of (files (sample_world ?c)) (''data'', ''mol_reformat.xyz'') \<noteq> Some Directory"
    by (simp add: sample_world_def)
  show ?thesis by (rule well_formed_input_block_count[OF h1 h2 h3 h4 h5 h6])
qed

section \<open>Output names are distinct\<close>

lemma split_on_acc_no_sep: "sep \<notin> set s \<Longrightarrow> split_on_acc sep cur s = [cur @ s]"
  by (induction s arbitrary: cur) auto

lemma split_on_acc_last_sep:
  "sep \<notin> set l \<Longrightarrow> split_on_acc sep cur (b @ sep # l) = split_on_acc sep cur b @ [l]"
  by (induction b arbitrary: cur) (auto simp: split_on_acc_no_sep)

lemma split_on_acc_nonempty: "split_on_acc sep cur s \<noteq> []"
  by (induction s arbitrary: cur) auto

lemma join_Cons: "ps \<noteq> [] \<Longrightarrow> join sep (p # ps) = p @ sep @ join sep ps"
  by (cases ps) auto

lemma join_split_on_acc: "join [sep] (split_on_acc sep cur s) = cur @ s"
  by (induction s arbitrary: cur) (auto simp: join_Cons split_on_acc_nonempty)

lemma join_snoc: "ps \<noteq> [] \<Longrightarrow> join sep (ps @ [p]) = join sep ps @ sep @ p"
  by (induction sep ps rule: join.induct) auto

lemma length_split_on_acc:
  "length (split_on_acc sep cur s) = Suc (length (filter (\<lambda>c. c = sep) s))"
  by (induction s arbitrary: cur) auto

lemma split_on_length_ge2: "2 \<le> length (split_on sep s) \<longleftrightarrow> sep \<in> set s"
proof -
  have "filter (\<lambda>c. c = sep) s \<noteq> [] \<longleftrightarrow> sep \<in> set s"
    by (auto simp: filter_empty_conv)
  moreover have "Suc 0 \<le> length (filter (\<lambda>c. c = sep) s) \<longleftrightarrow> filter (\<lambda>c. c = sep) s \<noteq> []"
    by (cases "filter (\<lambda>c. c = sep) s") auto
  ultimately show ?thesis by (simp add: split_on_def length_split_on_acc)
qed

lemma rfind_last:
  assumes "c \<notin> set l"
  shows "rfind c (b @ c # l) = int (length b)"
proof -
  have "takeWhile (\<lambda>x. x \<noteq> c) (rev l @ c # rev b) = rev l"
    using assms by (auto simp: takeWhile_tail takeWhile_eq_all_conv)
  then show ?thesis by (simp add: rfind_def)
qed

lemma rfind_absent: "c \<notin> set s \<Longrightarrow> rfind c s = - 1"
  by (simp add: rfind_def)

text \<open>The three shapes of the new name.\<close>

lemma out_name_no_dot:
  assumes "CHR ''.'' \<notin> set name"
  shows "out_name name = name @ ''_reformat''"
  using assms
  by (simp add: out_name_def split_on_def split_on_acc_no_sep path_stem_def path_suffix_def
                rfind_absent)

lemma out_name_insert:
  assumes "CHR ''.'' \<notin> set l"
    and "CHR ''.'' \<in> set b \<or> (b \<noteq> [] \<and> l \<noteq> [])"
  shows "out_name (b @ ''.'' @ l) = b @ ''_reformat.'' @ l"
proof (cases "CHR ''.'' \<in> set b")
  case True
  let ?ps = "split_on CHR ''.'' b"
  have parts: "split_on CHR ''.'' (b @ ''.'' @ l) = ?ps @ [l]"
    using assms(1) by (simp add: split_on_def split_on_acc_last_sep)
  from True have len: "2 \<le> length ?ps" by (simp add: split_on_length_ge2)
  then have ne: "?ps \<noteq> []" "butlast ?ps \<noteq> []" by (auto simp: butlast_conv_take)
  have "join ''.'' (butlast ?ps) @ ''.'' @ last ?ps = join ''.'' (butlast ?ps @ [last ?ps])"
    using ne(2) by (simp add: join_snoc)
  also have "\<dots> = join ''.'' ?ps" using ne(1) by simp
  also have "\<dots> = b" by (simp add: split_on_def join_split_on_acc)
  finally have pm: "join ''.'' (butlast ?ps) @ ''.'' @ last ?ps = b" .
  have i0: "3 \<le> length (?ps @ [l])" using len by simp
  have i1: "(?ps @ [l]) ! (length (?ps @ [l]) - 1) = l" by simp
  have "length ?ps - 1 < length ?ps" using len by simp
  then have i2: "(?ps @ [l]) ! (length (?ps @ [l]) - 2) = last ?ps"
    using ne(1) by (simp add: nth_append last_conv_nth)
  have i3: "take (length (?ps @ [l]) - 2) (?ps @ [l]) = butlast ?ps"
    by (simp add: butlast_conv_take)
  have "out_name (b @ ''.'' @ l)
      = (join ''.'' (butlast ?ps) @ ''.'' @ last ?ps) @ ''_reformat.'' @ l"
    unfolding out_name_def parts Let_def i1 i2 i3 using i0 by simp
  with pm show ?thesis by simp
next
  case False
  with assms(2) have ne: "b \<noteq> []" "l \<noteq> []" by auto
  have parts: "split_on CHR ''.'' (b @ ''.'' @ l) = [b, l]"
    using assms(1) False by (simp add: split_on_def split_on_acc_last_sep split_on_acc_no_sep)
  have r: "rfind CHR ''.'' (b @ ''.'' @ l) = int (length b)"
    using assms(1) rfind_last[of "CHR ''.''" l b] by simp
  from ne show ?thesis
    unfolding out_name_def parts Let_def path_stem_def path_suffix_def r
    by simp
qed

lemma out_name_leading_dot:
  assumes "CHR ''.'' \<notin> set l"
  shows "out_name (''.'' @ l) = ''.'' @ l @ ''_reformat''"
proof -
  have parts: "split_on CHR ''.'' (''.'' @ l) = [[], l]"
    using assms by (simp add: split_on_def split_on_acc_no_sep)
  have r: "rfind CHR ''.'' (''.'' @ l) = 0"
    using assms rfind_last[of "CHR ''.''" l "[]"] by simp
  show ?thesis
    unfolding out_name_def parts Let_def path_stem_def path_suffix_def r
    by simp
qed

lemma last_sep_unique:
  assumes "x @ c # l = x' @ c # l'" and "c \<notin> set l" and "c \<notin> set l'"
  shows "x = x' \<and> l = l'"
proof -
  from assms(1) have "rev l @ c # rev x = rev l' @ c # rev x'"
    by (metis rev.simps(2) rev_append append_assoc append_Cons append_Nil)
  then have "takeWhile (\<lambda>y. y \<noteq> c) (rev l @ c # rev x)
           = takeWhile (\<lambda>y. y \<noteq> c) (rev l' @ c # rev x')" by simp
  moreover have "takeWhile (\<lambda>y. y \<noteq> c) (rev l @ c # rev x) = rev l"
    using assms(2) by (auto simp: takeWhile_tail takeWhile_eq_all_conv)
  moreover have "takeWhile (\<lambda>y. y \<noteq> c) (rev l' @ c # rev x') = rev l'"
    using assms(3) by (auto simp: takeWhile_tail takeWhile_eq_all_conv)
  ultimately have "rev l = rev l'" by simp
  then have "l = l'" by simp
  with assms(1) show ?thesis by simp
qed

lemma split_last_dot:
  assumes "CHR ''.'' \<in> set name"
  obtains b l where "name = b @ ''.'' @ l" and "CHR ''.'' \<notin> set l"
proof -
  from assms have "CHR ''.'' \<in> set (rev name)" by simp
  from split_list_first[OF this]
  obtain ys zs where "rev name = ys @ CHR ''.'' # zs" and "CHR ''.'' \<notin> set ys"
    by blast
  then have "rev (rev name) = rev (ys @ CHR ''.'' # zs)" "CHR ''.'' \<notin> set (rev ys)"
    by simp_all
  then have "name = rev zs @ ''.'' @ rev ys" "CHR ''.'' \<notin> set (rev ys)"
    by simp_all
  then show ?thesis by (rule that)
qed

lemma out_name_shape:
  assumes "name \<noteq> []" and "last name \<noteq> CHR ''.''"
  shows "(\<exists>b l. b \<noteq> [] \<and> l \<noteq> [] \<and> CHR ''.'' \<notin> set l \<and> name = b @ ''.'' @ l
               \<and> out_name name = b @ ''_reformat.'' @ l)
       \<or> (CHR ''.'' \<notin> set (tl name) \<and> out_name name = name @ ''_reformat'')"
proof (cases "CHR ''.'' \<in> set name")
  case False
  then have "CHR ''.'' \<notin> set (tl name)" by (cases name) auto
  with False show ?thesis by (simp add: out_name_no_dot)
next
  case True
  then obtain b l where n: "name = b @ ''.'' @ l" and l: "CHR ''.'' \<notin> set l"
    by (rule split_last_dot)
  from n assms(2) have ne: "l \<noteq> []" by auto
  show ?thesis
  proof (cases "b = []")
    case True
    with n l have "out_name name = name @ ''_reformat''" "CHR ''.'' \<notin> set (tl name)"
      using out_name_leading_dot[OF l] by simp_all
    then show ?thesis by simp
  next
    case False
    with l ne have "out_name (b @ ''.'' @ l) = b @ ''_reformat.'' @ l"
      by (intro out_name_insert) auto
    with n l ne False show ?thesis by blast
  qed
qed

lemma out_name_injective:
  assumes "a \<noteq> []" "last a \<noteq> CHR ''.''" "b \<noteq> []" "last b \<noteq> CHR ''.''"
    and eq: "out_name a = out_name b"
  shows "a = b"
proof -
  have mixed: False
    if x: "x = p @ ''.'' @ l" "p \<noteq> []" "out_name x = p @ ''_reformat.'' @ l"
    and y: "y \<noteq> []" "CHR ''.'' \<notin> set (tl y)" "out_name y = y @ ''_reformat''"
    and e: "out_name x = out_name y"
    for x y p l :: string
  proof -
    from x(3) y(3) e have "tl (p @ ''_reformat.'' @ l) = tl (y @ ''_reformat'')" by simp
    with x(2) y(1) have "tl p @ ''_reformat.'' @ l = tl y @ ''_reformat''" by simp
    then have "set (tl p @ ''_reformat.'' @ l) = set (tl y @ ''_reformat'')" by simp
    moreover have "CHR ''.'' \<in> set (tl p @ ''_reformat.'' @ l)" by simp
    moreover have "CHR ''.'' \<notin> set (tl y @ ''_reformat'')" using y(2) by simp
    ultimately show False by simp
  qed
  from out_name_shape[OF assms(1,2)] out_name_shape[OF assms(3,4)]
  consider
    (ii) p l q m where "a = p @ ''.'' @ l" "CHR ''.'' \<notin> set l" "out_name a = p @ ''_reformat.'' @ l"
                       "b = q @ ''.'' @ m" "CHR ''.'' \<notin> set m" "out_name b = q @ ''_reformat.'' @ m"
  | (ia) p l where "a = p @ ''.'' @ l" "p \<noteq> []" "out_name a = p @ ''_reformat.'' @ l"
                   "CHR ''.'' \<notin> set (tl b)" "out_name b = b @ ''_reformat''"
  | (ai) q m where "b = q @ ''.'' @ m" "q \<noteq> []" "out_name b = q @ ''_reformat.'' @ m"
                   "CHR ''.'' \<notin> set (tl a)" "out_name a = a @ ''_reformat''"
  | (aa) "out_name a = a @ ''_reformat''" "out_name b = b @ ''_reformat''"
    by blast
  then show ?thesis
  proof cases
    case ii
    from ii(3,6) eq have "(p @ ''_reformat'') @ CHR ''.'' # l = (q @ ''_reformat'') @ CHR ''.'' # m"
      by simp
    from last_sep_unique[OF this ii(2,5)] have "p = q" "l = m" by simp_all
    with ii(1,4) show ?thesis by simp
  next
    case ia
    from mixed[OF ia(1,2,3) assms(3) ia(4,5) eq] show ?thesis ..
  next
    case ai
    from mixed[OF ai(1,2,3) assms(1) ai(4,5) eq[symmetric]] show ?thesis ..
  next
    case aa
    with eq show ?thesis by simp
  qed
qed

lemma make_output_name_valid:
  assumes "name \<noteq> []" "CHR ''/'' \<notin> set name" "last name \<noteq> CHR ''.''"
  shows "make_output_name (d, name) = Inr (d, out_name name)"
proof -
  from out_name_shape[OF assms(1,3)]
  have "9 \<le> length (out_name name) \<and> CHR ''/'' \<notin> set (out_name name)"
  proof (elim disjE exE conjE)
    fix b l
    assume n: "name = b @ ''.'' @ l" and o: "out_name name = b @ ''_reformat.'' @ l"
    from n assms(2) have "CHR ''/'' \<notin> set b" "CHR ''/'' \<notin> set l" by simp_all
    with o show ?thesis by simp
  next
    assume o: "out_name name = name @ ''_reformat''"
    with assms(2) show ?thesis by simp
  qed
  then have l: "9 \<le> length (out_name name)" and s: "CHR ''/'' \<notin> set (out_name name)"
    by simp_all
  from l have "out_name name \<noteq> []" by auto
  moreover have "out_name name \<noteq> ''.''"
  proof
    assume "out_name name = ''.''"
    then have "length (out_name name) = 1" by simp
    with l show False by simp
  qed
  ultimately show ?thesis using assms(1) s by (simp add: make_output_name_def with_name_def)
qed

lemma output_names_distinct:
  assumes "a \<noteq> b" "a \<noteq> []" "b \<noteq> []" "CHR ''/'' \<notin> set a" "CHR ''/'' \<notin> set b"
    "last a \<noteq> CHR ''.''" "last b \<noteq> CHR ''.''"
  shows "make_output_name (d, a) \<noteq> make_output_name (d, b)"
proof
  assume "make_output_name (d, a) = make_output_name (d, b)"
  then have "out_name a = out_name b"
    unfolding make_output_name_valid[OF assms(2,4,6)] make_output_name_valid[OF assms(3,5,7)]
    by simp
  with assms(2,6,3,7) have "a = b" by (rule out_name_injective)
  with assms(1) show False by simp
qed

lemma out_name_segments:
  assumes "CHR ''.'' \<in> set pre" "CHR ''.'' \<notin> set ext"
  shows "out_name (pre @ ''.'' @ ext) = pre @ ''_reformat'' @ ''.'' @ ext"
proof -
  have "out_name (pre @ ''.'' @ ext) = pre @ ''_reformat.'' @ ext"
    using assms by (intro out_name_insert) auto
  then show ?thesis by simp
qed

lemma out_name_fallback:
  assumes "length (split_on CHR ''.'' name) < 3"
  shows "out_name name = path_stem name @ ''_reformat'' @ path_suffix name"
proof -
  from assms have "\<not> 3 \<le> length (split_on CHR ''.'' name)" by simp
  then show ?thesis unfolding out_name_def Let_def by (simp only: if_False)
qed

text \<open>
  C6, as amended.  \<open>make_output_name\<close> is a function of the input name.  Two distinct
  file names of the same directory that do not end with a dot get distinct output
  names.  A name with at least two segments before the final extension gets the suffix
  \<open>_reformat\<close> after its second-to-last segment; a name with fewer than three
  dot-separated parts gets it between the stem and the suffix.
\<close>

theorem output_names:
  "(\<forall>d a b. a \<noteq> b \<and> a \<noteq> [] \<and> b \<noteq> [] \<and> CHR ''/'' \<notin> set a \<and> CHR ''/'' \<notin> set b
             \<and> last a \<noteq> CHR ''.'' \<and> last b \<noteq> CHR ''.''
           \<longrightarrow> make_output_name (d, a) \<noteq> make_output_name (d, b))
   \<and> (\<forall>pre ext. CHR ''.'' \<in> set pre \<and> CHR ''.'' \<notin> set ext
           \<longrightarrow> out_name (pre @ ''.'' @ ext) = pre @ ''_reformat'' @ ''.'' @ ext)
   \<and> (\<forall>name. length (split_on CHR ''.'' name) < 3
           \<longrightarrow> out_name name = path_stem name @ ''_reformat'' @ path_suffix name)"
proof (intro conjI allI impI)
  fix d a b :: string
  assume "a \<noteq> b \<and> a \<noteq> [] \<and> b \<noteq> [] \<and> CHR ''/'' \<notin> set a \<and> CHR ''/'' \<notin> set b
             \<and> last a \<noteq> CHR ''.'' \<and> last b \<noteq> CHR ''.''"
  then have "a \<noteq> b" "a \<noteq> []" "b \<noteq> []" "CHR ''/'' \<notin> set a" "CHR ''/'' \<notin> set b"
    "last a \<noteq> CHR ''.''" "last b \<noteq> CHR ''.''"
    by simp_all
  then show "make_output_name (d, a) \<noteq> make_output_name (d, b)"
    by (rule output_names_distinct)
next
  fix pre ext :: string
  assume "CHR ''.'' \<in> set pre \<and> CHR ''.'' \<notin> set ext"
  then have "CHR ''.'' \<in> set pre" "CHR ''.'' \<notin> set ext" by simp_all
  then show "out_name (pre @ ''.'' @ ext) = pre @ ''_reformat'' @ ''.'' @ ext"
    by (rule out_name_segments)
next
  fix name :: string
  assume "length (split_on CHR ''.'' name) < 3"
  then show "out_name name = path_stem name @ ''_reformat'' @ path_suffix name"
    by (rule out_name_fallback)
qed

text \<open>C6, witness.\<close>

theorem output_names_witness:
  "make_output_name (''data'', ''nenci.part1.xyz'') \<noteq> make_output_name (''data'', ''nenci.part1xyz'')
   \<and> out_name (''nenci.part1'' @ ''.'' @ ''xyz'') = ''nenci.part1'' @ ''_reformat'' @ ''.'' @ ''xyz''
   \<and> out_name ''mol.xyz'' = path_stem ''mol.xyz'' @ ''_reformat'' @ path_suffix ''mol.xyz''"
proof -
  have h1: "''nenci.part1.xyz'' \<noteq> ''nenci.part1xyz'' \<and> ''nenci.part1.xyz'' \<noteq> []
          \<and> ''nenci.part1xyz'' \<noteq> [] \<and> CHR ''/'' \<notin> set ''nenci.part1.xyz''
          \<and> CHR ''/'' \<notin> set ''nenci.part1xyz''
          \<and> last ''nenci.part1.xyz'' \<noteq> CHR ''.'' \<and> last ''nenci.part1xyz'' \<noteq> CHR ''.''"
    by code_simp
  have h2: "CHR ''.'' \<in> set ''nenci.part1'' \<and> CHR ''.'' \<notin> set ''xyz''" by code_simp
  have h3: "length (split_on CHR ''.'' ''mol.xyz'') < 3" by code_simp
  have a: "make_output_name (''data'', ''nenci.part1.xyz'')
         \<noteq> make_output_name (''data'', ''nenci.part1xyz'')"
    using h1 by (rule output_names[THEN conjunct1, rule_format])
  have b: "out_name (''nenci.part1'' @ ''.'' @ ''xyz'')
         = ''nenci.part1'' @ ''_reformat'' @ ''.'' @ ''xyz''"
    using h2 by (rule output_names[THEN conjunct2, THEN conjunct1, rule_format])
  have c: "out_name ''mol.xyz'' = path_stem ''mol.xyz'' @ ''_reformat'' @ path_suffix ''mol.xyz''"
    using h3 by (rule output_names[THEN conjunct2, THEN conjunct2, rule_format])
  from a b c show ?thesis by (intro conjI)
qed

text \<open>
  C6, counterexample.  The names \<open>a._reformat\<close> and \<open>a_reformat.\<close> are distinct and
  get the same output name: a name that ends with its only dot has an empty suffix, so
  the fixed suffix goes after the dot, where the other name already has it.
\<close>

theorem output_name_collision_counterexample:
  "make_output_name (''data'', ''a._reformat'') = Inr (''data'', ''a_reformat._reformat'')
   \<and> make_output_name (''data'', ''a_reformat.'') = Inr (''data'', ''a_reformat._reformat'')"
  by code_simp

section \<open>The crude reformat function and process_file\<close>










lemma split_ws_acc_nonempty: "t \<in> set (split_ws_acc cur s) \<Longrightarrow> t \<noteq> []"
  by (induction s arbitrary: cur) (auto split: if_splits)





lemma length_selected [simp]: "length (selected toks) = 10"
  by (simp add: selected_def METADATA_INDICES_def)














section \<open>Failures during a directory pass\<close>




lemma processed_append [simp]: "processed (xs @ ys) = processed xs @ processed ys"
  by (induction xs rule: processed.induct) auto

























section \<open>Scenarios evaluated on the code\<close>

text \<open>
  C7.  With the selected indices \<open>[16, 18]\<close>, the input of one block with three atoms
  and a metadata line of 19 tokens is reformatted into one block: its header holds the
  tokens at positions 16 and 18 (the template needs ten values, so the header is the
  fallback one), and the three atom lines are written unchanged.
\<close>

theorem scenario_indices_16_18:
  "process_file_with [16, 18] (''data'', ''mol.xyz'') None
     \<lparr>files = [((''data'', ''mol.xyz''),
                Regular ''3\<newline>0 1 2 3 4 5 6 7 8 9 10 11 12 13 14 15 16 17 18\<newline>C 0 0 0\<newline>H 1 0 0\<newline>H 0 1 0\<newline>'')],
      console = [], io_faults = []\<rparr>
   = Inr \<lparr>files = [((''data'', ''mol.xyz''),
                Regular ''3\<newline>0 1 2 3 4 5 6 7 8 9 10 11 12 13 14 15 16 17 18\<newline>C 0 0 0\<newline>H 1 0 0\<newline>H 0 1 0\<newline>''),
               ((''data'', ''mol_reformat.xyz''),
                Regular ''3\<newline>meta:16 meta:18 Properties=species:S:1:pos:R:3\<newline>C 0 0 0\<newline>H 1 0 0\<newline>H 0 1 0\<newline>'')],
      console = [Processing_file (''data'', ''mol.xyz''),
                 Finished_file (''data'', ''mol.xyz'') 1 (''data'', ''mol_reformat.xyz'')],
      io_faults = []\<rparr>"
  by code_simp

text \<open>
  C1, counterexample.  The count line \<open>-1\<close> is accepted by \<open>int\<close>; \<open>range(-1)\<close> is
  empty, so the block is written with the count \<open>-1\<close> on its first line and no atom
  line at all after the header: the number of atom lines, 0, is not the count.
\<close>

theorem negative_count_block_counterexample:
  "process_file (''data'', ''mol.xyz'') None
     \<lparr>files = [((''data'', ''mol.xyz''),
                Regular ''-1\<newline>0 1 2 3 4 5 6 7 8 9 10 11 12 13 14 15 16 17 18 19 20 21 22 23 24 25 26 27 28 29 30 31 32 33 34\<newline>'')],
      console = [], io_faults = []\<rparr>
   = Inr \<lparr>files = [((''data'', ''mol.xyz''),
                Regular ''-1\<newline>0 1 2 3 4 5 6 7 8 9 10 11 12 13 14 15 16 17 18 19 20 21 22 23 24 25 26 27 28 29 30 31 32 33 34\<newline>''),
               ((''data'', ''mol_reformat.xyz''),
                Regular ''-1\<newline>CCSD(T)/CBS=16 CCSD(T)/haTZ=18 MP2/haTZ=20 MP2/CBS=22 MP2/aTZ=24 MP2/aQZ=26 HF/haTZ=28 HF/aTZ=30 HF/aQZ=32 SAPT2+/aDZTot=34 Properties=species:S:1:pos:R:3\<newline>'')],
      console = [Processing_file (''data'', ''mol.xyz''),
                 Finished_file (''data'', ''mol.xyz'') 1 (''data'', ''mol_reformat.xyz'')],
      io_faults = []\<rparr>"
  by code_simp

text \<open>
  C3, counterexample.  In the scanning state the line \<open>-2\<close>, a negative integer literal,
  is not logged: it is taken as the count of a block, the next line is read as its
  metadata line and the block is written.  The one warning of the run is for the line
  \<open>C 0 0 0\<close>, which is scanned as a count line afterwards.
\<close>

theorem negative_literal_not_logged_counterexample:
  "body (''data'', ''mol.xyz'') METADATA_INDICES
     \<lparr>fin = [''-2\<newline>'',
              ''0 1 2 3 4 5 6 7 8 9 10 11 12 13 14 15 16 17 18 19 20 21 22 23 24 25 26 27 28 29 30 31 32 33 34\<newline>'',
              ''C 0 0 0\<newline>''],
      fout = [], logged = [], block_count = 0, io_budget = None\<rparr>
   = Continue
     \<lparr>fin = [''C 0 0 0\<newline>''],
      fout = ''-2\<newline>CCSD(T)/CBS=16 CCSD(T)/haTZ=18 MP2/haTZ=20 MP2/CBS=22 MP2/aTZ=24 MP2/aQZ=26 HF/haTZ=28 HF/aTZ=30 HF/aQZ=32 SAPT2+/aDZTot=34 Properties=species:S:1:pos:R:3\<newline>'',
      logged = [], block_count = 1, io_budget = None\<rparr>"
  by code_simp

end
